theory Spec2Isabelle
  imports Main
begin

section \<open>Data model (state.js)\<close>

text \<open>
  JavaScript numbers that only ever hold integers (coordinates, damage, counters) are
  \<open>int\<close>. Strings are byte lists; the emoji symbols of the catalog are written as
  their UTF-8 bytes. Objects held by reference (the units of \<open>state.units\<close>) are
  addressed by their position in that array: a function that receives a unit object of
  the live array in the source receives its index here, and a list of unit objects is a
  list of indices. What serves only the display is left out: the animation fields, the
  DOM updates, \<open>console.log\<close>, and the fields \<open>selectedUnit\<close>, \<open>validMoves\<close>,
  \<open>commanderTarget\<close> and \<open>castleDamageAnimation\<close> of the state, which the click
  handler and the renderer use.
\<close>

record UnitType =
  type_id :: int
  type_name :: string
  type_symbol :: string

definition ARCHERS :: UnitType where
  "ARCHERS = \<lparr>type_id = 1, type_name = ''Archers'',
     type_symbol = [CHR 0xF0, CHR 0x9F, CHR 0x8F, CHR 0xB9]\<rparr>"

definition CANNON :: UnitType where
  "CANNON = \<lparr>type_id = 2, type_name = ''Cannon'',
     type_symbol = [CHR 0xF0, CHR 0x9F, CHR 0x9A, CHR 0x80]\<rparr>"

definition MOUNTED :: UnitType where
  "MOUNTED = \<lparr>type_id = 3, type_name = ''Mounted'',
     type_symbol = [CHR 0xF0, CHR 0x9F, CHR 0x90, CHR 0xB4]\<rparr>"

definition ASSAULT_BEASTS :: UnitType where
  "ASSAULT_BEASTS = \<lparr>type_id = 4, type_name = ''Assault Beasts'',
     type_symbol = [CHR 0xF0, CHR 0x9F, CHR 0x90, CHR 0x98]\<rparr>"

definition SPEARS :: UnitType where
  "SPEARS = \<lparr>type_id = 5, type_name = ''Spears'',
     type_symbol = [CHR 0xE2, CHR 0x9A, CHR 0x94, CHR 0xEF, CHR 0xB8, CHR 0x8F]\<rparr>"

definition JESTERS :: UnitType where
  "JESTERS = \<lparr>type_id = 6, type_name = ''Jesters'',
     type_symbol = [CHR 0xF0, CHR 0x9F, CHR 0xA4, CHR 0xA1]\<rparr>"

definition MUSKETS :: UnitType where
  "MUSKETS = \<lparr>type_id = 7, type_name = ''Muskets'',
     type_symbol = [CHR 0xF0, CHR 0x9F, CHR 0x94, CHR 0xAB]\<rparr>"

definition AERIAL :: UnitType where
  "AERIAL = \<lparr>type_id = 8, type_name = ''Aerial'',
     type_symbol = [CHR 0xF0, CHR 0x9F, CHR 0xA6, CHR 0x85]\<rparr>"

definition COMMANDER :: UnitType where
  "COMMANDER = \<lparr>type_id = 9, type_name = ''Commander'',
     type_symbol = [CHR 0xF0, CHR 0x9F, CHR 0x91, CHR 0x91]\<rparr>"

definition MILITIA :: UnitType where
  "MILITIA = \<lparr>type_id = 10, type_name = ''Militia'',
     type_symbol = [CHR 0xF0, CHR 0x9F, CHR 0x97, CHR 0xBD]\<rparr>"

definition BATTERY_RAM :: UnitType where
  "BATTERY_RAM = \<lparr>type_id = 11, type_name = ''Battery Ram'',
     type_symbol = [CHR 0xF0, CHR 0x9F, CHR 0x90, CHR 0x8F]\<rparr>"

datatype GamePhase =
  SETUP | FACTION_1 | FACTION_2 | ABILITY_TARGETING | RESOLUTION_COMBAT
  | RESOLUTION_MELEE | RESOLUTION_RANGED | RESOLUTION_CASTLE | GAME_OVER

text \<open>The object returned by \<open>createUnit\<close>: \<open>uid\<close> is its \<open>id\<close> (a UUID string),
  \<open>utype\<close> its \<open>type\<close>; \<open>lastTarget\<close> is \<open>null\<close> or the id of a unit.\<close>

record Unit =
  uid :: string
  utype :: UnitType
  faction :: int
  row :: int
  col :: int
  damage :: int
  maxHp :: int
  movedThisTurn :: bool
  lastTarget :: "string option"
  color :: string
  number :: int

text \<open>A selection of the ability-targeting session: \<open>{unitId}\<close> or \<open>{hex: {row, col}}\<close>.\<close>

datatype Selection = SelUnit string | SelHex int int

record AbilityTargeting =
  active :: bool
  at_currentPlayer :: int
  selections :: "(string \<times> Selection) list"
  unitsToTarget :: "nat list"

text \<open>The object returned by \<open>createGameState\<close>. The dictionaries keyed by faction
  (\<open>{1: _, 2: _}\<close>) are functions of the key.\<close>

record GameState =
  phase :: GamePhase
  currentPlayer :: int
  round :: int
  units :: "Unit list"
  destroyedUnits :: "int \<Rightarrow> Unit list"
  castleDamage :: "int \<Rightarrow> int"
  previousCastleDamage :: "int \<Rightarrow> int"
  consecutiveDamageRounds :: "int \<Rightarrow> int"
  batteryRamWin :: "int option"
  activatedUnits :: "string set"
  pendingSecondMove :: "string option"
  abilityTargeting :: "AbilityTargeting option"
  unitsInCombatThisTurn :: "string set"
  log :: "string list"

definition createGameState :: GameState where
  "createGameState =
     \<lparr>phase = SETUP, currentPlayer = 1, round = 1, units = [],
      destroyedUnits = (\<lambda>_. []), castleDamage = (\<lambda>_. 0),
      previousCastleDamage = (\<lambda>_. 0), consecutiveDamageRounds = (\<lambda>_. 0),
      batteryRamWin = None, activatedUnits = {}, pendingSecondMove = None,
      abilityTargeting = None, unitsInCombatThisTurn = {}, log = []\<rparr>"

subsection \<open>JavaScript primitives\<close>

text \<open>\<open>a % b\<close> on integers: the remainder takes the sign of the dividend.\<close>

definition js_rem :: "int \<Rightarrow> int \<Rightarrow> int" where
  "js_rem a b = sgn a * (\<bar>a\<bar> mod \<bar>b\<bar>)"

text \<open>Truthiness of a value that is \<open>null\<close> or a string, and of one that is \<open>null\<close>
  or a number.\<close>

definition truthy_str :: "string option \<Rightarrow> bool" where
  "truthy_str v = (case v of None \<Rightarrow> False | Some s \<Rightarrow> s \<noteq> [])"

definition truthy_num :: "int option \<Rightarrow> bool" where
  "truthy_num v = (case v of None \<Rightarrow> False | Some n \<Rightarrow> n \<noteq> 0)"

text \<open>The decimal text of an integer, as a template literal prints it.\<close>

fun digits :: "nat \<Rightarrow> string" where
  "digits n =
     (if n < 10 then [''0123456789'' ! n]
      else digits (n div 10) @ [''0123456789'' ! (n mod 10)])"

declare digits.simps [simp del]

definition show_int :: "int \<Rightarrow> string" where
  "show_int i = (if i < 0 then CHR ''-'' # digits (nat (- i)) else digits (nat i))"

section \<open>Geometry (state.js)\<close>

definition toCube :: "int \<Rightarrow> int \<Rightarrow> int \<times> int \<times> int" where
  "toCube r c = (let x = c; z = r - c div 2; y = - x - z in (x, y, z))"

definition hexDistance :: "int \<Rightarrow> int \<Rightarrow> int \<Rightarrow> int \<Rightarrow> int" where
  "hexDistance r1 c1 r2 c2 =
     (case toCube r1 c1 of (ax, ay, az) \<Rightarrow>
      case toCube r2 c2 of (bx, by, bz) \<Rightarrow>
        max (max \<bar>ax - bx\<bar> \<bar>ay - by\<bar>) \<bar>az - bz\<bar>)"

definition isValidHex :: "int \<Rightarrow> int \<Rightarrow> bool" where
  "isValidHex r c = (r \<ge> 0 \<and> r < 6 \<and> c \<ge> 0 \<and> c < 6)"

definition getAdjacentHexes :: "int \<Rightarrow> int \<Rightarrow> (int \<times> int) list" where
  "getAdjacentHexes r c =
     (let isOddCol = (js_rem c 2 = 1);
          offsets = (if isOddCol
                     then [(0, -1), (1, -1), (-1, 0), (1, 0), (0, 1), (1, 1)]
                     else [(-1, -1), (0, -1), (-1, 0), (1, 0), (-1, 1), (0, 1)])
      in filter (\<lambda>(r', c'). r' \<ge> 0 \<and> r' < 6 \<and> c' \<ge> 0 \<and> c' < 6)
           (map (\<lambda>(dr, dc). (r + dr, c + dc)) offsets))"

definition getCastleRow :: "int \<Rightarrow> int" where
  "getCastleRow f = (if f = 1 then 5 else 0)"

definition isInEnemyCastle :: "Unit \<Rightarrow> bool" where
  "isInEnemyCastle u =
     (let enemyCastleRow = getCastleRow (if faction u = 1 then 2 else 1)
      in row u = enemyCastleRow)"

section \<open>Units on the board (state.js)\<close>

definition getUnitDisplayName :: "GameState \<Rightarrow> Unit \<Rightarrow> string" where
  "getUnitDisplayName s unit =
     (let sameTypeUnits =
            filter (\<lambda>u. faction u = faction unit \<and> type_id (utype u) = type_id (utype unit))
              (units s)
      in if length sameTypeUnits > 1
         then type_symbol (utype unit) @ '' '' @ type_name (utype unit) @ '' #''
                @ show_int (number unit)
         else type_symbol (utype unit) @ '' '' @ type_name (utype unit))"

definition getUnitsAt :: "GameState \<Rightarrow> int \<Rightarrow> int \<Rightarrow> nat list" where
  "getUnitsAt s r c =
     filter (\<lambda>i. row (units s ! i) = r \<and> col (units s ! i) = c
                 \<and> damage (units s ! i) < maxHp (units s ! i))
       [0..<length (units s)]"

definition getFactionUnitsAt :: "GameState \<Rightarrow> int \<Rightarrow> int \<Rightarrow> int \<Rightarrow> nat list" where
  "getFactionUnitsAt s r c f =
     filter (\<lambda>i. faction (units s ! i) = f) (getUnitsAt s r c)"

definition isEngaged :: "GameState \<Rightarrow> Unit \<Rightarrow> bool" where
  "isEngaged s unit =
     (let enemyFaction = (if faction unit = 1 then 2 else 1)
      in length (getFactionUnitsAt s (row unit) (col unit) enemyFaction) > 0)"

definition isAlive :: "Unit \<Rightarrow> bool" where
  "isAlive unit = (damage unit < maxHp unit)"

definition logMessage :: "GameState \<Rightarrow> string \<Rightarrow> GameState" where
  "logMessage s message = s\<lparr>log := log s @ [message]\<rparr>"

text \<open>\<open>applyDamage(state, unit, amount, sourceInfo)\<close>: the unit is the object at index
  \<open>i\<close> of \<open>state.units\<close>; \<open>sourceInfo\<close> is \<open>null\<close> or a string.\<close>

definition applyDamage :: "GameState \<Rightarrow> nat \<Rightarrow> int \<Rightarrow> string option \<Rightarrow> GameState" where
  "applyDamage s i amount sourceInfo =
     (let unit = (units s ! i)\<lparr>damage := damage (units s ! i) + amount\<rparr>;
          s1 = s\<lparr>units := (units s)[i := unit]\<rparr>;
          unitName = getUnitDisplayName s1 unit;
          s2 = (if \<not> truthy_str sourceInfo
                then s1\<lparr>log := log s1 @
                       [unitName @ '' takes '' @ show_int amount @ '' damage (''
                          @ show_int (damage unit) @ ''/'' @ show_int (maxHp unit) @ '')'']\<rparr>
                else s1)
      in if damage unit \<ge> maxHp unit
         then s2\<lparr>log := log s2 @ [unitName @ '' is destroyed!'']\<rparr>
         else s2)"

definition removeDeadUnits :: "GameState \<Rightarrow> GameState" where
  "removeDeadUnits s =
     (let deadUnits = filter (\<lambda>u. \<not> isAlive u) (units s);
          s1 = foldl (\<lambda>st unit.
                  let enemyFaction = (if faction unit = 1 then 2 else 1)
                  in st\<lparr>destroyedUnits := (destroyedUnits st)
                           (enemyFaction := destroyedUnits st enemyFaction @ [unit])\<rparr>)
                s deadUnits
      in s1\<lparr>units := filter isAlive (units s1)\<rparr>)"

section \<open>Castle damage and the win condition (state.js)\<close>

text \<open>One pass of the loop \<open>for (const faction of [1, 2])\<close> of
  \<open>calculateCastleDamage\<close> per list element; the \<open>return\<close> inside the loop ends it.\<close>

fun castleDamageLoop :: "GameState \<Rightarrow> int list \<Rightarrow> GameState" where
  "castleDamageLoop s [] = s"
| "castleDamageLoop s (f # fs) =
     (let enemyFaction = (if f = 1 then 2 else 1);
          enemyCastleRow = getCastleRow enemyFaction;
          unitsInCastle =
            filter (\<lambda>u. faction u = f \<and> row u = enemyCastleRow \<and> isAlive u) (units s)
      in if list_ex (\<lambda>unit. type_id (utype unit) = type_id BATTERY_RAM \<and> \<not> isEngaged s unit)
              unitsInCastle
         then logMessage (s\<lparr>batteryRamWin := Some f\<rparr>)
                (''Battery Ram crashes through! Player '' @ show_int f @ '' wins!'')
         else
           (let castleDamageDealt =
                  foldl (\<lambda>n unit. if \<not> isEngaged s unit then n + 1 else n) (0::int)
                    unitsInCastle
            in castleDamageLoop
                 (if castleDamageDealt > 0
                  then logMessage
                         (s\<lparr>castleDamage := (castleDamage s)
                               (enemyFaction := castleDamage s enemyFaction + castleDamageDealt)\<rparr>)
                         (''Player '' @ show_int f @ '' deals '' @ show_int castleDamageDealt
                            @ '' damage to enemy castle!'')
                  else s)
                 fs))"

definition calculateCastleDamage :: "GameState \<Rightarrow> GameState" where
  "calculateCastleDamage s = castleDamageLoop s [1, 2]"

record WinResult =
  winner :: int
  reason :: string

text \<open>\<open>checkWinCondition\<close> returns \<open>null\<close> or \<open>{winner, reason}\<close> and updates the
  streak counters of the state.\<close>

definition checkWinCondition :: "GameState \<Rightarrow> WinResult option \<times> GameState" where
  "checkWinCondition s =
     (case (if truthy_num (batteryRamWin s) then batteryRamWin s else None) of
        Some w \<Rightarrow>
          (Some \<lparr>winner = w, reason = ''Battery Ram crashed through enemy castle!''\<rparr>, s)
      | None \<Rightarrow>
          (let diff = castleDamage s 1 - castleDamage s 2
           in if diff \<ge> 2
              then (Some \<lparr>winner = 2, reason = ''Player 1 castle took 2+ more damage''\<rparr>, s)
              else if diff \<le> - 2
              then (Some \<lparr>winner = 1, reason = ''Player 2 castle took 2+ more damage''\<rparr>, s)
              else
                (let c = consecutiveDamageRounds s;
                     s1 = (if diff = 1
                           then s\<lparr>consecutiveDamageRounds := (c(1 := c 1 + 1))(2 := 0)\<rparr>
                           else if diff = - 1
                           then s\<lparr>consecutiveDamageRounds := (c(2 := c 2 + 1))(1 := 0)\<rparr>
                           else s\<lparr>consecutiveDamageRounds := (c(1 := 0))(2 := 0)\<rparr>)
                 in if consecutiveDamageRounds s1 1 \<ge> 2
                    then (Some \<lparr>winner = 2,
                            reason = ''Player 1 had more damage for 2 consecutive rounds''\<rparr>, s1)
                    else if consecutiveDamageRounds s1 2 \<ge> 2
                    then (Some \<lparr>winner = 1,
                            reason = ''Player 2 had more damage for 2 consecutive rounds''\<rparr>, s1)
                    else (None, s1))))"

section \<open>Combat resolution (state.js)\<close>

text \<open>A group of \<open>getEngagedGroups\<close>. The key \<open>`${row},${col}`\<close> of the set of
  processed hexes is the pair of coordinates.\<close>

record Group =
  hex :: "int \<times> int"
  faction1 :: "nat list"
  faction2 :: "nat list"

fun engagedGroupsLoop ::
  "GameState \<Rightarrow> Unit list \<Rightarrow> (int \<times> int) list \<Rightarrow> Group list \<Rightarrow> Group list" where
  "engagedGroupsLoop s [] processedHexes groups = groups"
| "engagedGroupsLoop s (unit # rest) processedHexes groups =
     (if \<not> isAlive unit then engagedGroupsLoop s rest processedHexes groups
      else if (row unit, col unit) \<in> set processedHexes
      then engagedGroupsLoop s rest processedHexes groups
      else
        (let faction1Units = getFactionUnitsAt s (row unit) (col unit) 1;
             faction2Units = getFactionUnitsAt s (row unit) (col unit) 2
         in if length faction1Units > 0 \<and> length faction2Units > 0
            then engagedGroupsLoop s rest (processedHexes @ [(row unit, col unit)])
                   (groups @ [\<lparr>hex = (row unit, col unit), faction1 = faction1Units,
                                faction2 = faction2Units\<rparr>])
            else engagedGroupsLoop s rest processedHexes groups))"

definition getEngagedGroups :: "GameState \<Rightarrow> Group list" where
  "getEngagedGroups s = engagedGroupsLoop s (units s) [] []"

text \<open>The damage one unit contributes and the \<open>reduce\<close> over a side of a group.\<close>

definition totalDamage :: "Unit list \<Rightarrow> int" where
  "totalDamage us =
     foldl (\<lambda>sum u. sum + (if type_id (utype u) = type_id MILITIA then 3 else 2)) 0 us"

text \<open>The allocation collaborator \<open>showAllocationModal(enemies, totalDamage, faction)\<close>:
  it answers with the entries of a \<open>Map\<close> from unit id to damage, in insertion order.\<close>

type_synonym allocator = "Unit list \<Rightarrow> int \<Rightarrow> int \<Rightarrow> (string \<times> int) list"

text \<open>One direction of a group's combat: the source writes this block twice, for
  faction 1 attacking faction 2 and then for faction 2 attacking faction 1.\<close>

definition attackSide ::
  "allocator option \<Rightarrow> GameState \<Rightarrow> nat list \<Rightarrow> nat list \<Rightarrow> int \<Rightarrow> GameState" where
  "attackSide showAllocationModal s attackers defenders attackingFaction =
     (let total = totalDamage (map (\<lambda>i. units s ! i) attackers)
      in if length defenders = 1 then applyDamage s (defenders ! 0) total None
         else case showAllocationModal of
           Some modal \<Rightarrow>
             foldl (\<lambda>st (enemyId, dmg).
                      case find (\<lambda>i. uid (units st ! i) = enemyId) defenders of
                        Some enemy \<Rightarrow> if dmg > 0 then applyDamage st enemy dmg None else st
                      | None \<Rightarrow> st)
               s (modal (map (\<lambda>i. units s ! i) defenders) total attackingFaction)
         | None \<Rightarrow>
             (let damagePerEnemy = total div int (length defenders);
                  remainder = js_rem total (int (length defenders))
              in foldl (\<lambda>st (enemy, idx).
                          applyDamage st enemy
                            (damagePerEnemy + (if int idx < remainder then 1 else 0)) None)
                   s (zip defenders [0..<length defenders])))"

definition resolveGroup :: "allocator option \<Rightarrow> GameState \<Rightarrow> Group \<Rightarrow> GameState" where
  "resolveGroup showAllocationModal s g =
     (let s1 = s\<lparr>unitsInCombatThisTurn :=
                  unitsInCombatThisTurn s
                    \<union> set (map (\<lambda>i. uid (units s ! i)) (faction1 g))
                    \<union> set (map (\<lambda>i. uid (units s ! i)) (faction2 g))\<rparr>;
          s2 = (if length (faction1 g) > 0 \<and> length (faction2 g) > 0
                then attackSide showAllocationModal s1 (faction1 g) (faction2 g) 1 else s1)
      in if length (faction2 g) > 0 \<and> length (faction1 g) > 0
         then attackSide showAllocationModal s2 (faction2 g) (faction1 g) 2 else s2)"

text \<open>The loop over the groups, before the dead are removed; and the whole of
  \<open>resolveCombatAsync\<close>.\<close>

definition resolveGroups :: "allocator option \<Rightarrow> GameState \<Rightarrow> Group list \<Rightarrow> GameState" where
  "resolveGroups showAllocationModal s groups =
     foldl (resolveGroup showAllocationModal)
       (logMessage s (''Resolving '' @ show_int (int (length groups)) @ '' engagement(s)...''))
       groups"

definition resolveCombatAsync :: "GameState \<Rightarrow> allocator option \<Rightarrow> GameState" where
  "resolveCombatAsync s showAllocationModal =
     (let groups = getEngagedGroups s
      in if length groups = 0 then logMessage s ''No combats to resolve''
         else removeDeadUnits (resolveGroups showAllocationModal s groups))"

section \<open>Unit abilities (state.js)\<close>

text \<open>The target enumerations return the enemy units as indices of \<open>state.units\<close>, in
  the order of the array.\<close>

definition getArchersVolleyTargets :: "GameState \<Rightarrow> Unit \<Rightarrow> nat list" where
  "getArchersVolleyTargets s unit =
     (if type_id (utype unit) \<noteq> type_id ARCHERS then []
      else
        (let maxRange = 2
         in filter (\<lambda>i. let enemy = units s ! i
                        in \<not> (\<not> isAlive enemy \<or> faction enemy = faction unit)
                           \<and> (let distance = hexDistance (row unit) (col unit) (row enemy) (col enemy)
                              in distance > 0 \<and> distance \<le> maxRange))
              [0..<length (units s)]))"

definition calculateArchersVolleyDamage :: "Unit \<Rightarrow> Unit \<Rightarrow> int" where
  "calculateArchersVolleyDamage unit target =
     (let damage0 = 2;
          damage1 = (if movedThisTurn unit then damage0 - 1 else damage0);
          damage2 = (if truthy_str (lastTarget unit) \<and> lastTarget unit \<noteq> Some (uid target)
                     then damage1 - 1 else damage1)
      in max 0 damage2)"

definition getCannonMortarTargets :: "GameState \<Rightarrow> Unit \<Rightarrow> nat list" where
  "getCannonMortarTargets s unit =
     (if type_id (utype unit) \<noteq> type_id CANNON then []
      else if movedThisTurn unit then []
      else
        (let maxRange = 2
         in filter (\<lambda>i. let enemy = units s ! i
                        in \<not> (\<not> isAlive enemy \<or> faction enemy = faction unit)
                           \<and> (let distance = hexDistance (row unit) (col unit) (row enemy) (col enemy)
                              in distance > 0 \<and> distance \<le> maxRange))
              [0..<length (units s)]))"

definition calculateCannonMortarDamage :: "Unit \<Rightarrow> int" where
  "calculateCannonMortarDamage unit = (if movedThisTurn unit then 0 else 1)"

definition getMusketsFireTargets :: "GameState \<Rightarrow> Unit \<Rightarrow> nat list" where
  "getMusketsFireTargets s unit =
     (if type_id (utype unit) \<noteq> type_id MUSKETS then []
      else if movedThisTurn unit then []
      else filter (\<lambda>i. let enemy = units s ! i
                      in \<not> (\<not> isAlive enemy \<or> faction enemy = faction unit)
                         \<and> col enemy = col unit)
             [0..<length (units s)])"

definition calculateMusketsFireDamage :: "Unit \<Rightarrow> int" where
  "calculateMusketsFireDamage unit = (if movedThisTurn unit then 0 else 1)"

definition canMountedCharge :: "Unit \<Rightarrow> int \<Rightarrow> bool" where
  "canMountedCharge unit distance =
     (if type_id (utype unit) \<noteq> type_id MOUNTED then False else distance \<le> 2)"

text \<open>\<open>applyMountedChargeBonus(state, unit, target, distanceMoved)\<close>: \<open>unit\<close> and
  \<open>target\<close> are objects of \<open>state.units\<close>, here their indices.\<close>

definition applyMountedChargeBonus :: "GameState \<Rightarrow> nat \<Rightarrow> nat \<Rightarrow> int \<Rightarrow> GameState" where
  "applyMountedChargeBonus s unit target distanceMoved =
     (if type_id (utype (units s ! unit)) \<noteq> type_id MOUNTED then s
      else if distanceMoved = 2
      then
        (let targetName = getUnitDisplayName s (units s ! target);
             unitName = getUnitDisplayName s (units s ! unit);
             s1 = applyDamage s target 2 (Some ''ability'');
             t = units s1 ! target;
             newHP = maxHp t - damage t
         in logMessage s1
              (unitName @ '' Charge: '' @ targetName @ '' takes 2 damage ('' @ show_int newHP
                 @ ''/'' @ show_int (maxHp t) @ '') at ['' @ show_int (row t) @ '', ''
                 @ show_int (col t) @ '']''))
      else s)"

definition getSpearsPierceTargets :: "GameState \<Rightarrow> Unit \<Rightarrow> nat list" where
  "getSpearsPierceTargets s unit =
     (if type_id (utype unit) \<noteq> type_id SPEARS then []
      else filter (\<lambda>i. let enemy = units s ! i
                      in \<not> (\<not> isAlive enemy \<or> faction enemy = faction unit)
                         \<and> (let distance = hexDistance (row unit) (col unit) (row enemy) (col enemy)
                            in distance = 1))
             [0..<length (units s)])"

definition calculateSpearsPierceDamage :: "Unit \<Rightarrow> Unit \<Rightarrow> int" where
  "calculateSpearsPierceDamage unit target = 1"

definition applySpearCounterCharge :: "GameState \<Rightarrow> nat \<Rightarrow> nat \<Rightarrow> GameState" where
  "applySpearCounterCharge s unit attacker =
     (if type_id (utype (units s ! unit)) \<noteq> type_id SPEARS then s
      else if type_id (utype (units s ! attacker)) \<noteq> type_id MOUNTED then s
      else
        (let attackerName = getUnitDisplayName s (units s ! attacker);
             unitName = getUnitDisplayName s (units s ! unit);
             s1 = applyDamage s attacker 3 (Some ''ability'');
             a = units s1 ! attacker;
             newHP = maxHp a - damage a
         in logMessage s1
              (unitName @ '' Counter Charge: '' @ attackerName @ '' takes 3 damage (''
                 @ show_int newHP @ ''/'' @ show_int (maxHp a) @ '') at ['' @ show_int (row a)
                 @ '', '' @ show_int (col a) @ '']'')))"

definition getJestersTauntTargets :: "GameState \<Rightarrow> Unit \<Rightarrow> nat list" where
  "getJestersTauntTargets s unit =
     (if type_id (utype unit) \<noteq> type_id JESTERS then []
      else filter (\<lambda>i. let enemy = units s ! i
                      in \<not> (\<not> isAlive enemy \<or> faction enemy = faction unit)
                         \<and> (let distance = hexDistance (row unit) (col unit) (row enemy) (col enemy)
                            in distance = 1))
             [0..<length (units s)])"

section \<open>Movement (game.js)\<close>

text \<open>The Commander branch of \<open>getValidMoves\<close>: the loop over \<open>state.units\<close> with its
  set of seen hex keys.\<close>

fun commanderLoop ::
  "Unit \<Rightarrow> Unit list \<Rightarrow> (int \<times> int) list \<Rightarrow> (int \<times> int) list \<Rightarrow> (int \<times> int) list" where
  "commanderLoop unit [] seenHexes targetHexes = targetHexes"
| "commanderLoop unit (friendlyUnit # rest) seenHexes targetHexes =
     (if uid friendlyUnit = uid unit then commanderLoop unit rest seenHexes targetHexes
      else if faction friendlyUnit \<noteq> faction unit
      then commanderLoop unit rest seenHexes targetHexes
      else if damage friendlyUnit \<ge> maxHp friendlyUnit
      then commanderLoop unit rest seenHexes targetHexes
      else
        (let distance = hexDistance (row unit) (col unit) (row friendlyUnit) (col friendlyUnit)
         in if distance > 0 \<and> distance \<le> 2
               \<and> (row friendlyUnit, col friendlyUnit) \<notin> set seenHexes
            then commanderLoop unit rest
                   (seenHexes @ [(row friendlyUnit, col friendlyUnit)])
                   (targetHexes @ [(row friendlyUnit, col friendlyUnit)])
            else commanderLoop unit rest seenHexes targetHexes))"

text \<open>The breadth-first loop \<open>while (queue.length > 0)\<close> of \<open>getValidMoves\<close>: the
  queue holds pairs of a hex and its distance; \<open>None\<close> stands for a loop that does not
  end.\<close>

partial_function (option) movesLoop ::
  "GameState \<Rightarrow> Unit \<Rightarrow> int \<Rightarrow> ((int \<times> int) \<times> int) list \<Rightarrow> (int \<times> int) list
     \<Rightarrow> (int \<times> int) list \<Rightarrow> (int \<times> int) list option" where
  "movesLoop s unit maxMovement queue visited moves =
     (case queue of
        [] \<Rightarrow> Some moves
      | current # rest \<Rightarrow>
          (if fst current \<in> set visited \<or> snd current > maxMovement
           then movesLoop s unit maxMovement rest visited moves
           else
             movesLoop s unit maxMovement
               (if snd current < maxMovement
                then rest @ map (\<lambda>nextHex. (nextHex, snd current + 1))
                              (filter (\<lambda>nextHex. nextHex \<notin> set (visited @ [fst current]))
                                 (getAdjacentHexes (fst (fst current)) (snd (fst current))))
                else rest)
               (visited @ [fst current])
               (if snd current > 0
                   \<and> length (getFactionUnitsAt s (fst (fst current)) (snd (fst current))
                               (faction unit)) < 2
                then moves @ [fst current] else moves)))"

definition getValidMoves :: "GameState \<Rightarrow> Unit \<Rightarrow> (int \<times> int) list option" where
  "getValidMoves s unit =
     (if isEngaged s unit \<and> type_id (utype unit) \<noteq> type_id ASSAULT_BEASTS then Some []
      else if type_id (utype unit) = type_id COMMANDER
      then Some (commanderLoop unit (units s) [] [])
      else if type_id (utype unit) = type_id AERIAL
      then
        (let enemyCastleRow = (if faction unit = 1 then 0 else 5)
         in Some (concat (map (\<lambda>r. concat (map (\<lambda>c.
                      if r = row unit \<and> c = col unit then []
                      else if r = enemyCastleRow then []
                      else if length (filter (\<lambda>u. row u = r \<and> col u = c \<and> damage u < maxHp u)
                                        (units s)) = 0
                      then [(r, c)] else [])
                    [0..5])) [0..5])))
      else
        (let maxMovement =
               (if type_id (utype unit) = type_id MOUNTED
                then (if movedThisTurn unit then 1 else 1) else 1)
         in case movesLoop s unit maxMovement [((row unit, col unit), 0)] [] [] of
              None \<Rightarrow> None
            | Some moves \<Rightarrow> Some (moves @ [(row unit, col unit)])))"

fun joinWith :: "string \<Rightarrow> string list \<Rightarrow> string" where
  "joinWith sep [] = []"
| "joinWith sep [x] = x"
| "joinWith sep (x # y # ys) = x @ sep @ joinWith sep (y # ys)"

text \<open>\<open>moveUnit(unit, newRow, newCol)\<close> on the game's state; \<open>unit\<close> is an object of
  \<open>state.units\<close>, here its index. \<open>picker\<close> stands for \<open>showUnitPickerModal\<close>: given
  the units offered it answers with the unit the player clicks (\<open>None\<close> while no option
  is clicked); the callback of the modal is run on the answer.\<close>

definition moveUnit ::
  "(nat list \<Rightarrow> nat option) \<Rightarrow> GameState \<Rightarrow> nat \<Rightarrow> int \<Rightarrow> int \<Rightarrow> GameState" where
  "moveUnit picker s unit newRow newCol =
     (let oldRow = row (units s ! unit);
          oldCol = col (units s ! unit);
          distanceMoved = hexDistance oldRow oldCol newRow newCol;
          isMountedSecondMove =
            (type_id (utype (units s ! unit)) = type_id MOUNTED \<and> movedThisTurn (units s ! unit));
          u = (units s ! unit)\<lparr>row := newRow, col := newCol, movedThisTurn := True\<rparr>;
          s1 = s\<lparr>units := (units s)[unit := u]\<rparr>;
          s2 = (if type_id (utype u) = type_id MOUNTED \<and> \<not> isMountedSecondMove
                then s1\<lparr>pendingSecondMove := Some (uid u)\<rparr>
                else s1\<lparr>activatedUnits := insert (uid u) (activatedUnits s1),
                        pendingSecondMove := None\<rparr>);
          enemyFaction = (if faction u = 1 then 2 else 1);
          enemiesAtHex = getFactionUnitsAt s2 newRow newCol enemyFaction;
          moved = (\<lambda>st. logMessage st
                     (getUnitDisplayName st (units st ! unit) @ '' moves to ['' @ show_int newRow
                        @ '', '' @ show_int newCol @ '']''))
      in if length enemiesAtHex > 0
         then
           (let enemyUnits = joinWith '' & ''
                  (map (\<lambda>e. getUnitDisplayName s2 (units s2 ! e)) enemiesAtHex);
                s3 = logMessage s2
                       (getUnitDisplayName s2 u @ '' engages with '' @ enemyUnits @ '' at (''
                          @ show_int newRow @ '', '' @ show_int newCol @ '')!'')
            in if isMountedSecondMove
               then
                 (let counterChargingSpears =
                        concat (map (\<lambda>adjHex.
                            filter (\<lambda>i. type_id (utype (units s3 ! i)) = type_id SPEARS
                                        \<and> damage (units s3 ! i) < maxHp (units s3 ! i)
                                        \<and> \<not> isEngaged s3 (units s3 ! i))
                              (getFactionUnitsAt s3 (fst adjHex) (snd adjHex) enemyFaction))
                          (getAdjacentHexes newRow newCol))
                  in case counterChargingSpears of
                       spear # _ \<Rightarrow>
                         (let s4 = applySpearCounterCharge s3 spear unit
                          in moved (logMessage s4
                               (getUnitDisplayName s4 (units s4 ! unit)
                                  @ [CHR 0x27] @ ''s charge is countered!'')))
                     | [] \<Rightarrow>
                         (if length enemiesAtHex > 1
                          then
                            (case picker enemiesAtHex of
                               None \<Rightarrow> s3
                             | Some selectedEnemy \<Rightarrow>
                                 (if selectedEnemy \<in> set enemiesAtHex
                                  then
                                    (let s4 = applyMountedChargeBonus s3 unit selectedEnemy 2
                                     in logMessage s4
                                          (getUnitDisplayName s4 (units s4 ! unit) @ '' tramples ''
                                             @ getUnitDisplayName s4 (units s4 ! selectedEnemy)
                                             @ ''!''))
                                  else s3))
                          else moved (applyMountedChargeBonus s3 unit (enemiesAtHex ! 0) 2)))
               else moved s3)
         else moved s2)"

section \<open>Ending a phase (game.js)\<close>

definition needsAbilityTarget :: "GameState \<Rightarrow> Unit \<Rightarrow> bool" where
  "needsAbilityTarget s unit =
     (let unitIsEngaged = isEngaged s unit
      in if type_name (utype unit) = ''Spears'' \<and> \<not> unitIsEngaged
            \<and> length (getSpearsPierceTargets s unit) > 0 then True
         else if type_name (utype unit) = ''Archers'' \<and> \<not> unitIsEngaged
            \<and> length (getArchersVolleyTargets s unit) > 0 then True
         else if type_name (utype unit) = ''Cannon'' \<and> \<not> movedThisTurn unit \<and> \<not> unitIsEngaged
            \<and> length (getCannonMortarTargets s unit) > 0 then True
         else False)"

definition getUnitsNeedingAbilityTargets :: "GameState \<Rightarrow> nat list" where
  "getUnitsNeedingAbilityTargets s =
     filter (\<lambda>i. \<not> (damage (units s ! i) \<ge> maxHp (units s ! i))
                 \<and> needsAbilityTarget s (units s ! i))
       [0..<length (units s)]"

text \<open>\<open>endPhase\<close>, up to the start of the resolution sequence: where the source calls
  \<open>executeResolutionSequence\<close> the phase is \<open>RESOLUTION_COMBAT\<close>.\<close>

definition endPhase :: "GameState \<Rightarrow> GameState" where
  "endPhase s0 =
     (let s = s0\<lparr>pendingSecondMove := None\<rparr>
      in if phase s = FACTION_1
         then logMessage (s\<lparr>phase := FACTION_2, activatedUnits := {}\<rparr>)
                ''Player 2 faction phase''
         else if phase s = FACTION_2
         then
           (let unitsNeedingTargeting = getUnitsNeedingAbilityTargets s
            in if length unitsNeedingTargeting > 0
               then
                 (let p2HasAbilities = list_ex (\<lambda>i. faction (units s ! i) = 2) unitsNeedingTargeting;
                      p1HasAbilities = list_ex (\<lambda>i. faction (units s ! i) = 1) unitsNeedingTargeting;
                      startingPlayer = (if \<not> p2HasAbilities \<and> p1HasAbilities then 1 else 2)
                  in s\<lparr>phase := ABILITY_TARGETING,
                       abilityTargeting :=
                         Some \<lparr>active = True, at_currentPlayer = startingPlayer,
                               selections = [], unitsToTarget = unitsNeedingTargeting\<rparr>\<rparr>)
               else s\<lparr>phase := RESOLUTION_COMBAT\<rparr>)
         else if phase s = ABILITY_TARGETING
         then
           (case abilityTargeting s of
              None \<Rightarrow> s
            | Some at \<Rightarrow>
                (let player = at_currentPlayer at;
                     pending = (\<lambda>f. filter (\<lambda>i. faction (units s ! i) = f
                                   \<and> uid (units s ! i) \<notin> set (map fst (selections at)))
                                 (unitsToTarget at))
                 in if length (pending player) > 0
                    then logMessage s (''Next unit for Player '' @ show_int player @ ''...'')
                    else if player = 2
                    then
                      (if length (pending 1) > 0
                       then logMessage (s\<lparr>abilityTargeting := Some (at\<lparr>at_currentPlayer := 1\<rparr>)\<rparr>)
                              ''Player 1 selecting ability targets...''
                       else s\<lparr>phase := RESOLUTION_COMBAT\<rparr>)
                    else s\<lparr>phase := RESOLUTION_COMBAT\<rparr>))
         else s)"

section \<open>The end of the resolution sequence (game.js)\<close>

text \<open>The last step of \<open>executeResolutionSequence\<close>: castle damage, then the win check,
  then either the end of the game or the next round.\<close>

definition castleAndWinStep :: "GameState \<Rightarrow> GameState" where
  "castleAndWinStep s =
     (let s1 = calculateCastleDamage s
      in case checkWinCondition s1 of
           (Some winResult, s2) \<Rightarrow>
             logMessage (s2\<lparr>phase := GAME_OVER\<rparr>) (''Game Over! '' @ reason winResult)
         | (None, s2) \<Rightarrow>
             logMessage
               (s2\<lparr>phase := FACTION_1, activatedUnits := {}, round := round s2 + 1,
                   units := map (\<lambda>unit. unit\<lparr>movedThisTurn := False, lastTarget := None\<rparr>)
                              (units s2),
                   pendingSecondMove := None\<rparr>)
               ''Player 1 faction phase'')"

section \<open>Notions of the specification\<close>

text \<open>The two forms of a display name, and the units of the same faction and type.\<close>

definition numberedName :: "Unit \<Rightarrow> string" where
  "numberedName unit =
     type_symbol (utype unit) @ '' '' @ type_name (utype unit) @ '' #'' @ show_int (number unit)"

definition plainName :: "Unit \<Rightarrow> string" where
  "plainName unit = type_symbol (utype unit) @ '' '' @ type_name (utype unit)"

definition sameKind :: "Unit \<Rightarrow> Unit \<Rightarrow> bool" where
  "sameKind unit u = (faction u = faction unit \<and> type_id (utype u) = type_id (utype unit))"

text \<open>A faction has a living Battery Ram standing unengaged in the enemy castle row.\<close>

definition hasUnengagedRam :: "GameState \<Rightarrow> int \<Rightarrow> bool" where
  "hasUnengagedRam s f =
     list_ex (\<lambda>u. faction u = f \<and> type_id (utype u) = type_id BATTERY_RAM \<and> isAlive u
                 \<and> isInEnemyCastle u \<and> \<not> isEngaged s u) (units s)"

text \<open>The state after one faction's unengaged units in the enemy castle row have been
  counted.\<close>

definition countedState :: "GameState \<Rightarrow> int \<Rightarrow> GameState" where
  "countedState s f =
     (let enemyFaction = (if f = 1 then 2 else 1);
          n = int (length (filter (\<lambda>u. \<not> isEngaged s u)
                 (filter (\<lambda>u. faction u = f \<and> row u = getCastleRow enemyFaction \<and> isAlive u)
                    (units s))))
      in if n > 0
         then logMessage
                (s\<lparr>castleDamage := (castleDamage s)(enemyFaction := castleDamage s enemyFaction + n)\<rparr>)
                (''Player '' @ show_int f @ '' deals '' @ show_int n @ '' damage to enemy castle!'')
         else s)"

text \<open>The total outgoing damage of a side: 3 for each Militia unit, 2 for each other
  unit. The share of the \<open>k\<close>-th of \<open>count\<close> defenders when the total is split evenly.\<close>

definition combatTotal :: "Unit list \<Rightarrow> int" where
  "combatTotal us =
     sum_list (map (\<lambda>u. if type_id (utype u) = type_id MILITIA then 3 else 2) us)"

definition fallbackShare :: "int \<Rightarrow> nat \<Rightarrow> nat \<Rightarrow> int" where
  "fallbackShare amount count k =
     amount div int count + (if int k < amount mod int count then 1 else 0)"

text \<open>The state in the middle of a group's combat: the units of the group are marked
  and faction 1 has dealt its damage, faction 2 not yet.\<close>

definition afterFaction1 :: "allocator option \<Rightarrow> GameState \<Rightarrow> Group \<Rightarrow> GameState" where
  "afterFaction1 showAllocationModal s g =
     attackSide showAllocationModal
       (s\<lparr>unitsInCombatThisTurn :=
            unitsInCombatThisTurn s
              \<union> set (map (\<lambda>i. uid (units s ! i)) (faction1 g))
              \<union> set (map (\<lambda>i. uid (units s ! i)) (faction2 g))\<rparr>)
       (faction1 g) (faction2 g) 1"

text \<open>Two lists of units that differ only in damage: the second has, at each index,
  the damage of the first plus an amount.\<close>

definition damaged :: "(nat \<Rightarrow> int) \<Rightarrow> Unit list \<Rightarrow> Unit list \<Rightarrow> bool" where
  "damaged d us us' =
     (length us' = length us
      \<and> (\<forall>j<length us. us' ! j = (us ! j)\<lparr>damage := damage (us ! j) + d j\<rparr>))"

text \<open>Two lists of units that agree in everything but damage.\<close>

definition sameUnits :: "Unit list \<Rightarrow> Unit list \<Rightarrow> bool" where
  "sameUnits us us' = (map (\<lambda>u. u\<lparr>damage := 0\<rparr>) us' = map (\<lambda>u. u\<lparr>damage := 0\<rparr>) us)"

text \<open>The damage that unit \<open>j\<close> receives when a total is split over the defenders
  \<open>ds\<close> without an allocator, and the damage it receives in a whole group.\<close>

definition attackDelta :: "int \<Rightarrow> nat list \<Rightarrow> nat \<Rightarrow> int" where
  "attackDelta amount ds j =
     sum_list (map (\<lambda>(e, idx). if e = j
                      then amount div int (length ds)
                             + (if int idx < js_rem amount (int (length ds)) then 1 else 0)
                      else 0)
                 (zip ds [0..<length ds]))"

definition groupDelta :: "Unit list \<Rightarrow> Group \<Rightarrow> nat \<Rightarrow> int" where
  "groupDelta us g j =
     attackDelta (totalDamage (map (\<lambda>i. us ! i) (faction1 g))) (faction2 g) j
     + attackDelta (totalDamage (map (\<lambda>i. us ! i) (faction2 g))) (faction1 g) j"

text \<open>The damage that unit \<open>j\<close> receives from the entries an allocator answers
  with: an entry counts for the first defender that has its id, if its damage is
  positive. Then the damage unit \<open>j\<close> receives when one side attacks, with or without an
  allocator, and in a whole group.\<close>

definition allocated :: "Unit list \<Rightarrow> nat list \<Rightarrow> (string \<times> int) list \<Rightarrow> nat \<Rightarrow> int" where
  "allocated us ds entries j =
     sum_list (map (\<lambda>(enemyId, dmg).
                      if find (\<lambda>i. uid (us ! i) = enemyId) ds = Some j \<and> dmg > 0
                      then dmg else 0)
                 entries)"

definition sideDelta ::
  "allocator option \<Rightarrow> Unit list \<Rightarrow> nat list \<Rightarrow> nat list \<Rightarrow> int \<Rightarrow> nat \<Rightarrow> int" where
  "sideDelta alloc us attackers ds attackingFaction j =
     (if length ds = 1
      then (if j = ds ! 0 then totalDamage (map (\<lambda>i. us ! i) attackers) else 0)
      else case alloc of
             None \<Rightarrow> attackDelta (totalDamage (map (\<lambda>i. us ! i) attackers)) ds j
           | Some modal \<Rightarrow>
               allocated us ds
                 (modal (map (\<lambda>i. us ! i) ds) (totalDamage (map (\<lambda>i. us ! i) attackers))
                    attackingFaction) j)"

definition groupDeltaWith :: "allocator option \<Rightarrow> Unit list \<Rightarrow> Group \<Rightarrow> nat \<Rightarrow> int" where
  "groupDeltaWith alloc us g j =
     sideDelta alloc us (faction1 g) (faction2 g) 1 j
     + sideDelta alloc us (faction2 g) (faction1 g) 2 j"

text \<open>The contract of the allocation collaborator: asked with the enemy units and a
  total, it answers with entries whose keys are ids of those units and whose values
  are non-negative and add up to the total.\<close>

definition allocationFor :: "Unit list \<Rightarrow> int \<Rightarrow> (string \<times> int) list \<Rightarrow> bool" where
  "allocationFor enemies amount entries =
     (list_all (\<lambda>(enemyId, dmg). enemyId \<in> set (map uid enemies) \<and> 0 \<le> dmg) entries
      \<and> sum_list (map snd entries) = amount)"

text \<open>A group as \<open>getEngagedGroups\<close> builds it for a state: the living units of each
  faction at its hex, both sides present.\<close>

definition groupOf :: "GameState \<Rightarrow> Group \<Rightarrow> bool" where
  "groupOf s g =
     (faction1 g = getFactionUnitsAt s (fst (hex g)) (snd (hex g)) 1
      \<and> faction2 g = getFactionUnitsAt s (fst (hex g)) (snd (hex g)) 2
      \<and> faction1 g \<noteq> [] \<and> faction2 g \<noteq> [])"

section \<open>Example states\<close>

text \<open>A unit as \<open>createUnit\<close> returns it (no damage, five hit points, not moved, no
  last target), with a given id and sequence number.\<close>

definition exampleUnit :: "string \<Rightarrow> UnitType \<Rightarrow> int \<Rightarrow> int \<Rightarrow> int \<Rightarrow> int \<Rightarrow> Unit" where
  "exampleUnit i t f r c n =
     \<lparr>uid = i, utype = t, faction = f, row = r, col = c, damage = 0, maxHp = 5,
      movedThisTurn = False, lastTarget = None, color = ''#60a5fa'', number = n\<rparr>"

definition movedArcher :: Unit where
  "movedArcher =
     (exampleUnit ''a1'' ARCHERS 1 4 2 1)\<lparr>movedThisTurn := True, lastTarget := Some ''e1''\<rparr>"

definition winState :: "int option \<Rightarrow> int \<Rightarrow> int \<Rightarrow> int \<Rightarrow> int \<Rightarrow> GameState" where
  "winState marker cd1 cd2 st1 st2 =
     createGameState\<lparr>phase := RESOLUTION_CASTLE,
       castleDamage := (\<lambda>_. 0)(1 := cd1, 2 := cd2),
       consecutiveDamageRounds := (\<lambda>_. 0)(1 := st1, 2 := st2),
       batteryRamWin := marker\<rparr>"

definition twoArchersState :: GameState where
  "twoArchersState =
     createGameState\<lparr>phase := RESOLUTION_COMBAT,
       units := [(exampleUnit ''a1'' ARCHERS 1 4 2 1)\<lparr>damage := 3\<rparr>,
                 exampleUnit ''a2'' ARCHERS 1 4 3 2]\<rparr>"

definition ramState :: GameState where
  "ramState =
     createGameState\<lparr>phase := RESOLUTION_CASTLE,
       units := [exampleUnit ''a1'' ARCHERS 1 0 0 1,
                 exampleUnit ''r1'' BATTERY_RAM 2 5 3 1]\<rparr>"

definition ramState1 :: GameState where
  "ramState1 =
     createGameState\<lparr>phase := RESOLUTION_CASTLE,
       units := [exampleUnit ''r1'' BATTERY_RAM 1 0 0 1,
                 exampleUnit ''a1'' ARCHERS 2 5 3 1]\<rparr>"

definition jesterState :: GameState where
  "jesterState =
     createGameState\<lparr>phase := FACTION_2,
       units := [exampleUnit ''j1'' JESTERS 1 3 2 1,
                 exampleUnit ''m1'' MILITIA 2 2 2 1]\<rparr>"

definition chargeState :: GameState where
  "chargeState =
     createGameState\<lparr>phase := FACTION_1,
       units := [exampleUnit ''h1'' MOUNTED 1 3 0 1,
                 exampleUnit ''a1'' ARCHERS 2 2 0 1]\<rparr>"

text \<open>A lone Militia unit of faction 1 engaged with two units of faction 2; and a
  Militia unit engaged with an Archers unit that has 2 hit points left.\<close>

definition militiaState :: GameState where
  "militiaState =
     createGameState\<lparr>phase := RESOLUTION_COMBAT,
       units := [exampleUnit ''m1'' MILITIA 1 2 2 1,
                 exampleUnit ''a1'' ARCHERS 2 2 2 1,
                 exampleUnit ''c1'' CANNON 2 2 2 1]\<rparr>"

definition killState :: GameState where
  "killState =
     createGameState\<lparr>phase := RESOLUTION_COMBAT,
       units := [exampleUnit ''m1'' MILITIA 1 2 2 1,
                 (exampleUnit ''a1'' ARCHERS 2 2 2 1)\<lparr>damage := 3\<rparr>]\<rparr>"

definition killGroup :: Group where
  "killGroup = \<lparr>hex = (2, 2), faction1 = [0], faction2 = [1]\<rparr>"

text \<open>A Militia unit and a Spears unit of faction 1 engaged with an Archers unit that
  has 2 hit points left; and an allocator that gives the whole total to the first enemy
  it is shown and 0 to the others.\<close>

definition pairState :: GameState where
  "pairState =
     createGameState\<lparr>phase := RESOLUTION_COMBAT,
       units := [exampleUnit ''m1'' MILITIA 1 2 2 1,
                 exampleUnit ''s1'' SPEARS 1 2 2 1,
                 (exampleUnit ''a1'' ARCHERS 2 2 2 1)\<lparr>damage := 3\<rparr>]\<rparr>"

definition pairGroup :: Group where
  "pairGroup = \<lparr>hex = (2, 2), faction1 = [0, 1], faction2 = [2]\<rparr>"

definition allToFirst :: allocator where
  "allToFirst enemies amount attackingFaction =
     (case enemies of
        [] \<Rightarrow> []
      | e # es \<Rightarrow> (uid e, amount) # map (\<lambda>u. (uid u, 0)) es)"

text \<open>A unit picker on which no option is clicked.\<close>

definition noPick :: "nat list \<Rightarrow> nat option" where
  "noPick offered = None"

section \<open>Geometry: distance and adjacency\<close>

lemma js_rem_2: "0 \<le> c \<Longrightarrow> (js_rem c 2 = 1) = (c mod 2 = 1)"
  by (auto simp add: js_rem_def sgn_if)

lemma hexDistance_cube:
  "hexDistance r1 c1 r2 c2 =
     max (max \<bar>c1 - c2\<bar> \<bar>(- c1 - (r1 - c1 div 2)) - (- c2 - (r2 - c2 div 2))\<bar>)
       \<bar>(r1 - c1 div 2) - (r2 - c2 div 2)\<bar>"
  by (simp add: hexDistance_def toCube_def Let_def)

lemma hexDistance_offset:
  "hexDistance r c (r + dr) (c + dc) =
     max (max \<bar>dc\<bar> \<bar>dc + (dr - ((c + dc) div 2 - c div 2))\<bar>)
       \<bar>dr - ((c + dc) div 2 - c div 2)\<bar>"
  by (simp add: hexDistance_def toCube_def Let_def abs_minus_commute algebra_simps)

lemma half_odd_up: "c mod 2 = 1 \<Longrightarrow> (c + 1) div 2 - c div 2 = (1::int)"
  by presburger

lemma half_odd_down: "c mod 2 = 1 \<Longrightarrow> (c - 1) div 2 - c div 2 = (0::int)"
  by presburger

lemma half_even_up: "c mod 2 \<noteq> 1 \<Longrightarrow> (c + 1) div 2 - c div 2 = (0::int)"
  by presburger

lemma half_even_down: "c mod 2 \<noteq> 1 \<Longrightarrow> (c - 1) div 2 - c div 2 = (-1::int)"
  by presburger

lemma adjacent_odd:
  "c mod 2 = 1 \<Longrightarrow> (dr, dc) \<in> set [(0, -1), (1, -1), (-1, 0), (1, 0), (0, 1), (1, 1)]
     \<Longrightarrow> hexDistance r c (r + dr) (c + dc) = 1"
  using half_odd_up[of c] half_odd_down[of c] by (auto simp add: hexDistance_offset)

lemma adjacent_even:
  "c mod 2 \<noteq> 1 \<Longrightarrow> (dr, dc) \<in> set [(-1, -1), (0, -1), (-1, 0), (1, 0), (-1, 1), (0, 1)]
     \<Longrightarrow> hexDistance r c (r + dr) (c + dc) = 1"
  using half_even_up[of c] half_even_down[of c] by (auto simp add: hexDistance_offset)

lemma getAdjacentHexes_offset:
  assumes "(r', c') \<in> set (getAdjacentHexes r c)"
  shows "\<exists>dr dc. r' = r + dr \<and> c' = c + dc
           \<and> (dr, dc) \<in> set (if js_rem c 2 = 1
                     then [(0, -1), (1, -1), (-1, 0), (1, 0), (0, 1), (1, 1)]
                     else [(-1, -1), (0, -1), (-1, 0), (1, 0), (-1, 1), (0, 1)])"
proof -
  have g: "\<And>y P f xs. y \<in> set (filter P (map f xs)) \<Longrightarrow> \<exists>x\<in>set xs. y = f x"
    by auto
  from assms have "\<exists>x\<in>set (if js_rem c 2 = 1
                     then [(0, -1), (1, -1), (-1, 0), (1, 0), (0, 1), (1, 1)]
                     else [(-1, -1), (0, -1), (-1, 0), (1, 0), (-1, 1), (0, 1)]).
       (r', c') = (\<lambda>(dr, dc). (r + dr, c + dc)) x"
    unfolding getAdjacentHexes_def Let_def by (rule g)
  then obtain x where x: "x \<in> set (if js_rem c 2 = 1
                     then [(0, -1), (1, -1), (-1, 0), (1, 0), (0, 1), (1, 1)]
                     else [(-1, -1), (0, -1), (-1, 0), (1, 0), (-1, 1), (0, 1)])"
      and e: "(r', c') = (\<lambda>(dr, dc). (r + dr, c + dc)) x" by blast
  obtain dr dc where d: "x = (dr, dc)" by (cases x)
  from e d have "r' = r + dr" "c' = c + dc" by simp_all
  with x d show ?thesis by blast
qed

lemma adjacent_distance:
  assumes c: "0 \<le> c" and m: "(r', c') \<in> set (getAdjacentHexes r c)"
  shows "hexDistance r c r' c' = 1"
proof -
  from getAdjacentHexes_offset[OF m] obtain dr dc where e: "r' = r + dr" "c' = c + dc"
    and o: "(dr, dc) \<in> set (if js_rem c 2 = 1
                     then [(0, -1), (1, -1), (-1, 0), (1, 0), (0, 1), (1, 1)]
                     else [(-1, -1), (0, -1), (-1, 0), (1, 0), (-1, 1), (0, 1)])" by blast
  show ?thesis
  proof (cases "c mod 2 = 1")
    case True
    have j: "js_rem c 2 = 1" using js_rem_2[OF c] True by simp
    from o have "(dr, dc) \<in> set [(0, -1), (1, -1), (-1, 0), (1, 0), (0, 1), (1, 1)]"
      by (simp only: j simp_thms if_True)
    from adjacent_odd[OF True this] e show ?thesis by simp
  next
    case False
    have j: "js_rem c 2 \<noteq> 1" using js_rem_2[OF c] False by simp
    from o have "(dr, dc) \<in> set [(-1, -1), (0, -1), (-1, 0), (1, 0), (-1, 1), (0, 1)]"
      by (simp only: j simp_thms if_False)
    from adjacent_even[OF False this] e show ?thesis by simp
  qed
qed

lemma max3_zero: "max (max a b) d = 0 \<Longrightarrow> a \<le> 0 \<and> d \<le> (0::int)"
  by (simp add: max_def split: if_splits)

lemma hexDistance_zero:
  assumes "hexDistance r1 c1 r2 c2 = 0"
  shows "r1 = r2 \<and> c1 = c2"
proof -
  from assms have "\<bar>c1 - c2\<bar> \<le> 0 \<and> \<bar>(r1 - c1 div 2) - (r2 - c2 div 2)\<bar> \<le> 0"
    unfolding hexDistance_cube by (rule max3_zero)
  then have c: "c1 = c2" and z: "r1 - c1 div 2 = r2 - c2 div 2" by linarith+
  from z have "r1 = r2" unfolding c by simp
  with c show ?thesis by simp
qed

text \<open>
  Claim C8. For in-bounds cells \<open>a = (r1, c1)\<close> and \<open>b = (r2, c2)\<close>: the distance from
  \<open>a\<close> to itself is 0; the distance is symmetric; it is 0 only if \<open>a = b\<close>; and every
  cell returned by \<open>getAdjacentHexes\<close> for \<open>a\<close> is at distance 1 from \<open>a\<close>.
\<close>

theorem hexDistance_properties:
  assumes "isValidHex r1 c1" and "isValidHex r2 c2"
  shows "hexDistance r1 c1 r1 c1 = 0
       \<and> hexDistance r1 c1 r2 c2 = hexDistance r2 c2 r1 c1
       \<and> (hexDistance r1 c1 r2 c2 = 0 \<longrightarrow> (r1, c1) = (r2, c2))
       \<and> (\<forall>b \<in> set (getAdjacentHexes r1 c1). hexDistance r1 c1 (fst b) (snd b) = 1)"
proof (intro conjI impI ballI)
  show "hexDistance r1 c1 r1 c1 = 0" by (simp add: hexDistance_cube)
  show "hexDistance r1 c1 r2 c2 = hexDistance r2 c2 r1 c1"
    by (simp add: hexDistance_cube abs_minus_commute)
next
  assume "hexDistance r1 c1 r2 c2 = 0"
  from hexDistance_zero[OF this] show "(r1, c1) = (r2, c2)" by simp
next
  fix b assume b: "b \<in> set (getAdjacentHexes r1 c1)"
  from assms(1) have c: "0 \<le> c1" by (simp add: isValidHex_def)
  from b have "(fst b, snd b) \<in> set (getAdjacentHexes r1 c1)" by simp
  from adjacent_distance[OF c this] show "hexDistance r1 c1 (fst b) (snd b) = 1" .
qed

theorem hexDistance_properties_witness:
  "isValidHex 2 3 \<and> (2, 4) \<in> set (getAdjacentHexes 2 3)
   \<and> hexDistance 2 3 2 3 = 0 \<and> hexDistance 2 3 2 4 = 1"
proof -
  have v: "isValidHex 2 3" by code_simp
  have m: "(2, 4) \<in> set (getAdjacentHexes 2 3)" by code_simp
  from hexDistance_properties[OF v v] m
  have "hexDistance 2 3 2 3 = 0" and "hexDistance 2 3 2 4 = 1" by force+
  with v m show ?thesis by simp
qed


section \<open>Archers: volley damage\<close>

text \<open>
  Claim C5. The volley damage of Archers against a target is 2, minus 1 if the unit moved
  this turn, minus 1 if the target differs from the unit's remembered last target, and
  never below 0; a unit that moved and aims at a unit other than its last target deals 0.
  The remembered target is \<open>null\<close> or the id of a unit, and ids are not the empty string.
\<close>

theorem archers_volley_damage:
  assumes "lastTarget unit \<noteq> Some []"
  shows "calculateArchersVolleyDamage unit target =
           max 0 (2 - (if movedThisTurn unit then 1 else 0)
                    - (if lastTarget unit \<noteq> None \<and> lastTarget unit \<noteq> Some (uid target)
                       then 1 else 0))
         \<and> (movedThisTurn unit \<and> lastTarget unit \<noteq> None
              \<and> lastTarget unit \<noteq> Some (uid target)
              \<longrightarrow> calculateArchersVolleyDamage unit target = 0)"
  using assms
  by (cases "lastTarget unit")
     (auto simp add: calculateArchersVolleyDamage_def truthy_str_def Let_def)

theorem archers_volley_damage_witness:
  "lastTarget movedArcher \<noteq> Some [] \<and> movedThisTurn movedArcher
   \<and> lastTarget movedArcher \<noteq> None
   \<and> lastTarget movedArcher \<noteq> Some (uid (exampleUnit ''e2'' CANNON 2 2 2 1))
   \<and> calculateArchersVolleyDamage movedArcher (exampleUnit ''e2'' CANNON 2 2 2 1) = 0"
proof -
  have h: "lastTarget movedArcher \<noteq> Some []" by (simp add: movedArcher_def)
  have m: "movedThisTurn movedArcher \<and> lastTarget movedArcher \<noteq> None
     \<and> lastTarget movedArcher \<noteq> Some (uid (exampleUnit ''e2'' CANNON 2 2 2 1))"
    by (simp add: movedArcher_def exampleUnit_def)
  from archers_volley_damage[OF h, of "exampleUnit ''e2'' CANNON 2 2 2 1"] m
  have "calculateArchersVolleyDamage movedArcher (exampleUnit ''e2'' CANNON 2 2 2 1) = 0"
    by blast
  with h m show ?thesis by blast
qed

section \<open>The win evaluator\<close>

lemma castleAndWinStep_phase:
  "phase (castleAndWinStep s) =
     (if fst (checkWinCondition (calculateCastleDamage s)) = None then FACTION_1 else GAME_OVER)"
  by (simp add: castleAndWinStep_def Let_def logMessage_def split: prod.splits option.splits)

text \<open>
  Claim C2. The win evaluator runs after the castle damage of a round. If the instant-win
  marker is set, that faction wins. Otherwise, with \<open>diff = castleDamage[1] - castleDamage[2]\<close>:
  \<open>diff \<ge> 2\<close> makes faction 2 the winner and \<open>diff \<le> -2\<close> faction 1; \<open>diff = 1\<close>
  increments the streak of faction 1 and resets that of faction 2, \<open>diff = -1\<close> the reverse,
  \<open>diff = 0\<close> resets both; a streak of faction 1 that reaches 2 makes faction 2 the winner,
  and symmetrically; otherwise there is no winner, and play continues with the movement
  phase of faction 1 exactly when there is none.
\<close>

theorem checkWinCondition_rules:
  "(batteryRamWin s = Some f \<and> f \<noteq> 0 \<longrightarrow>
      map_option winner (fst (checkWinCondition s)) = Some f \<and> snd (checkWinCondition s) = s)
   \<and> (batteryRamWin s = None \<longrightarrow>
        (castleDamage s 1 - castleDamage s 2 \<ge> 2 \<longrightarrow>
           map_option winner (fst (checkWinCondition s)) = Some 2 \<and> snd (checkWinCondition s) = s)
      \<and> (castleDamage s 1 - castleDamage s 2 \<le> - 2 \<longrightarrow>
           map_option winner (fst (checkWinCondition s)) = Some 1 \<and> snd (checkWinCondition s) = s)
      \<and> (castleDamage s 1 - castleDamage s 2 = 1 \<longrightarrow>
           snd (checkWinCondition s) =
             s\<lparr>consecutiveDamageRounds :=
                 ((consecutiveDamageRounds s)(1 := consecutiveDamageRounds s 1 + 1))(2 := 0)\<rparr>
           \<and> map_option winner (fst (checkWinCondition s)) =
               (if consecutiveDamageRounds s 1 + 1 \<ge> 2 then Some 2 else None))
      \<and> (castleDamage s 1 - castleDamage s 2 = - 1 \<longrightarrow>
           snd (checkWinCondition s) =
             s\<lparr>consecutiveDamageRounds :=
                 ((consecutiveDamageRounds s)(2 := consecutiveDamageRounds s 2 + 1))(1 := 0)\<rparr>
           \<and> map_option winner (fst (checkWinCondition s)) =
               (if consecutiveDamageRounds s 2 + 1 \<ge> 2 then Some 1 else None))
      \<and> (castleDamage s 1 - castleDamage s 2 = 0 \<longrightarrow>
           snd (checkWinCondition s) =
             s\<lparr>consecutiveDamageRounds := ((consecutiveDamageRounds s)(1 := 0))(2 := 0)\<rparr>
           \<and> fst (checkWinCondition s) = None))
   \<and> phase (castleAndWinStep s) =
       (if fst (checkWinCondition (calculateCastleDamage s)) = None then FACTION_1 else GAME_OVER)"
  by (simp add: checkWinCondition_def truthy_num_def Let_def castleAndWinStep_phase)

theorem checkWinCondition_rules_witness:
  "map_option winner (fst (checkWinCondition (winState (Some 2) 0 0 0 0))) = Some 2
   \<and> map_option winner (fst (checkWinCondition (winState None 2 0 0 0))) = Some 2
   \<and> map_option winner (fst (checkWinCondition (winState None 0 3 0 0))) = Some 1
   \<and> map_option winner (fst (checkWinCondition (winState None 1 0 0 0))) = None
   \<and> consecutiveDamageRounds (snd (checkWinCondition (winState None 1 0 0 0))) 1 = 1
   \<and> map_option winner (fst (checkWinCondition (winState None 1 0 1 0))) = Some 2
   \<and> map_option winner (fst (checkWinCondition (winState None 3 4 0 1))) = Some 1
   \<and> fst (checkWinCondition (winState None 2 2 1 0)) = None
   \<and> consecutiveDamageRounds (snd (checkWinCondition (winState None 2 2 1 0))) 1 = 0"
  using checkWinCondition_rules[of "winState (Some 2) 0 0 0 0" 2]
        checkWinCondition_rules[of "winState None 2 0 0 0"]
        checkWinCondition_rules[of "winState None 0 3 0 0"]
        checkWinCondition_rules[of "winState None 1 0 0 0"]
        checkWinCondition_rules[of "winState None 1 0 1 0"]
        checkWinCondition_rules[of "winState None 3 4 0 1"]
        checkWinCondition_rules[of "winState None 2 2 1 0"]
  by (simp add: winState_def createGameState_def)


section \<open>Damage and liveness\<close>

lemma applyDamage_units:
  "units (applyDamage s i amount src) =
     (units s)[i := (units s ! i)\<lparr>damage := damage (units s ! i) + amount\<rparr>]"
  by (simp add: applyDamage_def Let_def)

lemma destroyedUnits_fold_units:
  "units (foldl (\<lambda>st unit. st\<lparr>destroyedUnits := h st unit\<rparr>) s ds) = units s"
  by (induction ds arbitrary: s) simp_all

lemma removeDeadUnits_units: "units (removeDeadUnits s) = filter isAlive (units s)"
  by (simp add: removeDeadUnits_def Let_def destroyedUnits_fold_units)

text \<open>
  Claim C10. \<open>applyDamage\<close> adds exactly the given amount to the unit's damage and does
  not clamp it at \<open>maxHp\<close>, so the damage may exceed \<open>maxHp\<close>; a unit is alive exactly
  when its damage is below \<open>maxHp\<close>, and the removal of destroyed units keeps exactly the
  units for which that holds.
\<close>

theorem applyDamage_unclamped:
  assumes "i < length (units s)"
  shows "damage (units (applyDamage s i amount src) ! i) = damage (units s ! i) + amount
       \<and> maxHp (units (applyDamage s i amount src) ! i) = maxHp (units s ! i)
       \<and> (maxHp (units s ! i) < damage (units s ! i) + amount \<longrightarrow>
             maxHp (units (applyDamage s i amount src) ! i)
               < damage (units (applyDamage s i amount src) ! i))
       \<and> isAlive u = (damage u < maxHp u)
       \<and> units (removeDeadUnits s) = filter (\<lambda>u. damage u < maxHp u) (units s)"
proof -
  have iA: "isAlive = (\<lambda>u. damage u < maxHp u)" by (rule ext) (simp add: isAlive_def)
  show ?thesis using assms
    by (simp add: applyDamage_units removeDeadUnits_units iA)
qed

theorem applyDamage_unclamped_witness:
  "(0::nat) < length (units twoArchersState)
   \<and> maxHp (units twoArchersState ! 0) < damage (units twoArchersState ! 0) + 4
   \<and> damage (units (applyDamage twoArchersState 0 4 None) ! 0) = 7
   \<and> maxHp (units (applyDamage twoArchersState 0 4 None) ! 0) = 5
   \<and> map uid (units (removeDeadUnits (applyDamage twoArchersState 0 4 None))) = [''a2'']"
proof -
  have l: "(0::nat) < length (units twoArchersState)" by code_simp
  have l': "(0::nat) < length (units (applyDamage twoArchersState 0 4 None))"
    using l by (simp add: applyDamage_units)
  have d: "damage (units twoArchersState ! 0) = 3" "maxHp (units twoArchersState ! 0) = 5"
    by code_simp+
  have f: "map uid (filter (\<lambda>u. damage u < maxHp u)
            (units (applyDamage twoArchersState 0 4 None))) = [''a2'']"
    by code_simp
  from applyDamage_unclamped[OF l, of 4 None] d
  have "damage (units (applyDamage twoArchersState 0 4 None) ! 0) = 7"
    and "maxHp (units (applyDamage twoArchersState 0 4 None) ! 0) = 5" by simp_all
  moreover from applyDamage_unclamped[OF l', of 0 None] f
  have "map uid (units (removeDeadUnits (applyDamage twoArchersState 0 4 None))) = [''a2'']"
    by simp
  ultimately show ?thesis using l d by simp
qed

section \<open>Display names\<close>

text \<open>
  Claim C7, as stated, fails: the name is numbered when more than one unit of the same
  faction and type is in \<open>state.units\<close>, and a unit whose damage has reached \<open>maxHp\<close>
  stays there until \<open>removeDeadUnits\<close> runs. In \<open>twoArchersState\<close>, after 2 damage to the
  first Archers unit, one living Archers unit of faction 1 is left, and the name of that
  unit is still numbered; so is the name \<open>applyDamage\<close> itself writes to the log.
\<close>

theorem displayName_counterexample:
  "length (filter (\<lambda>u. sameKind (units twoArchersState ! 1) u \<and> isAlive u)
             (units (applyDamage twoArchersState 0 2 None))) = 1
   \<and> getUnitDisplayName (applyDamage twoArchersState 0 2 None)
        (units (applyDamage twoArchersState 0 2 None) ! 1)
       = type_symbol ARCHERS @ '' Archers #2''
   \<and> last (log (applyDamage twoArchersState 0 2 None))
       = type_symbol ARCHERS @ '' Archers #1 is destroyed!''"
  by code_simp

text \<open>
  Claim C7, amended. The display name is \<open>"{symbol} {typeName} #{sequenceNumber}"\<close>
  exactly when more than one unit of that faction and type is in \<open>state.units\<close> at the
  time of the call, whether or not its damage has reached \<open>maxHp\<close>, and
  \<open>"{symbol} {typeName}"\<close> otherwise; when every unit of \<open>state.units\<close> is alive, these
  are the living units of that faction and type.
\<close>

theorem displayName_numbered_iff:
  "(getUnitDisplayName s unit = numberedName unit)
     = (length (filter (sameKind unit) (units s)) > 1)
   \<and> (getUnitDisplayName s unit = plainName unit)
     = (\<not> length (filter (sameKind unit) (units s)) > 1)
   \<and> ((\<forall>u \<in> set (units s). isAlive u) \<longrightarrow>
        filter (sameKind unit) (units s) = filter (\<lambda>u. sameKind unit u \<and> isAlive u) (units s))"
proof -
  have f: "(\<lambda>u. faction u = faction unit \<and> type_id (utype u) = type_id (utype unit))
             = sameKind unit"
    by (rule ext) (simp add: sameKind_def)
  have a: "(\<forall>u \<in> set (units s). isAlive u) \<longrightarrow>
        filter (sameKind unit) (units s) = filter (\<lambda>u. sameKind unit u \<and> isAlive u) (units s)"
    by (auto intro: filter_cong)
  show ?thesis using a
    by (simp add: getUnitDisplayName_def Let_def f numberedName_def plainName_def)
qed

theorem displayName_numbered_iff_witness:
  "list_all isAlive (units twoArchersState)
   \<and> length (filter (\<lambda>u. sameKind (units twoArchersState ! 0) u \<and> isAlive u)
        (units twoArchersState)) = 2
   \<and> getUnitDisplayName twoArchersState (units twoArchersState ! 0)
       = numberedName (units twoArchersState ! 0)
   \<and> getUnitDisplayName twoArchersState (units twoArchersState ! 0)
       \<noteq> plainName (units twoArchersState ! 0)"
proof -
  have a: "list_all isAlive (units twoArchersState)" by code_simp
  then have a': "\<forall>u \<in> set (units twoArchersState). isAlive u" by (simp add: list_all_iff)
  have l: "length (filter (\<lambda>u. sameKind (units twoArchersState ! 0) u \<and> isAlive u)
        (units twoArchersState)) = 2" by code_simp
  from displayName_numbered_iff[of twoArchersState "units twoArchersState ! 0"] a' l
  have "getUnitDisplayName twoArchersState (units twoArchersState ! 0)
          = numberedName (units twoArchersState ! 0)"
    and "getUnitDisplayName twoArchersState (units twoArchersState ! 0)
          \<noteq> plainName (units twoArchersState ! 0)" by simp_all
  with a l show ?thesis by simp
qed


section \<open>Castle damage and the Battery Ram\<close>

lemma count_foldl:
  "foldl (\<lambda>n u. if P u then n + 1 else n) (k::int) xs = k + int (length (filter P xs))"
  by (induction xs arbitrary: k) simp_all

lemma isEngaged_units: "units s' = units s \<Longrightarrow> isEngaged s' u = isEngaged s u"
  by (simp add: isEngaged_def getFactionUnitsAt_def getUnitsAt_def)

lemma hasUnengagedRam_units:
  assumes u: "units s' = units s"
  shows "hasUnengagedRam s' f = hasUnengagedRam s f"
proof -
  have "\<And>x. isEngaged s' x = isEngaged s x" by (rule isEngaged_units[OF u])
  then show ?thesis by (simp add: hasUnengagedRam_def u)
qed

lemma castleDamageLoop_Cons:
  "castleDamageLoop s (f # fs) =
     (if hasUnengagedRam s f
      then logMessage (s\<lparr>batteryRamWin := Some f\<rparr>)
             (''Battery Ram crashes through! Player '' @ show_int f @ '' wins!'')
      else castleDamageLoop (countedState s f) fs)"
proof -
  have r: "list_ex (\<lambda>unit. type_id (utype unit) = type_id BATTERY_RAM \<and> \<not> isEngaged s unit)
       (filter (\<lambda>u. faction u = f \<and> row u = getCastleRow (if f = 1 then 2 else 1) \<and> isAlive u)
          (units s))
       = hasUnengagedRam s f"
    by (auto simp add: hasUnengagedRam_def list_ex_iff isInEnemyCastle_def Let_def)
  show ?thesis
    by (simp only: castleDamageLoop.simps Let_def r countedState_def count_foldl) simp
qed

lemma countedState_units: "units (countedState s f) = units s"
  by (simp add: countedState_def Let_def logMessage_def)

lemma countedState_1:
  "castleDamage (countedState s 1) 1 = castleDamage s 1"
  "castleDamage (countedState s 1) 2 = castleDamage s 2
      + int (length (filter (\<lambda>u. faction u = 1 \<and> row u = 0 \<and> isAlive u \<and> \<not> isEngaged s u)
                       (units s)))"
  by (simp_all add: countedState_def Let_def logMessage_def getCastleRow_def conj_assoc)

lemma checkWinCondition_marker:
  "batteryRamWin s = Some f \<Longrightarrow> f \<noteq> 0 \<Longrightarrow>
     map_option winner (fst (checkWinCondition s)) = Some f"
  by (simp add: checkWinCondition_def truthy_num_def)

lemma castleAndWinStep_marker:
  "batteryRamWin (calculateCastleDamage s) = Some f \<Longrightarrow> f \<noteq> 0 \<Longrightarrow>
     phase (castleAndWinStep s) = GAME_OVER"
  by (simp add: castleAndWinStep_def Let_def checkWinCondition_def truthy_num_def logMessage_def)

text \<open>
  Claim C4, as stated, fails: the loop of \<open>calculateCastleDamage\<close> handles faction 1
  before faction 2, so when the Battery Ram is faction 2's, the unengaged units of
  faction 1 in row 0 have been counted before the loop returns. In \<open>ramState\<close> faction 2
  has an unengaged Battery Ram in row 5 and wins, and the castle damage of faction 2
  has grown by 1 in the same round.
\<close>

theorem batteryRam_counterexample:
  "hasUnengagedRam ramState 2
   \<and> batteryRamWin (calculateCastleDamage ramState) = Some 2
   \<and> castleDamage (calculateCastleDamage ramState) 2 = castleDamage ramState 2 + 1"
  by code_simp

text \<open>
  Claim C4, amended. If faction 1 has a living Battery Ram standing unengaged in row 0
  during the castle-damage evaluation, faction 1 wins at once and no castle damage is
  added to either total that round. If faction 1 has none and faction 2 has one in row 5,
  faction 2 wins at once and nothing is added to the castle damage of faction 1; the
  castle damage of faction 2 has by then grown by the number of living unengaged units
  of faction 1 in row 0. In both cases the win check names that faction and the game is
  over.
\<close>

theorem batteryRam_instant_win:
  "(hasUnengagedRam s 1 \<longrightarrow>
      batteryRamWin (calculateCastleDamage s) = Some 1
      \<and> castleDamage (calculateCastleDamage s) = castleDamage s
      \<and> map_option winner (fst (checkWinCondition (calculateCastleDamage s))) = Some 1
      \<and> phase (castleAndWinStep s) = GAME_OVER)
   \<and> (\<not> hasUnengagedRam s 1 \<and> hasUnengagedRam s 2 \<longrightarrow>
      batteryRamWin (calculateCastleDamage s) = Some 2
      \<and> castleDamage (calculateCastleDamage s) 1 = castleDamage s 1
      \<and> castleDamage (calculateCastleDamage s) 2 = castleDamage s 2
          + int (length (filter (\<lambda>u. faction u = 1 \<and> row u = 0 \<and> isAlive u \<and> \<not> isEngaged s u)
                           (units s)))
      \<and> map_option winner (fst (checkWinCondition (calculateCastleDamage s))) = Some 2
      \<and> phase (castleAndWinStep s) = GAME_OVER)"
proof (intro conjI impI)
  assume h: "hasUnengagedRam s 1"
  then have e: "calculateCastleDamage s = logMessage (s\<lparr>batteryRamWin := Some 1\<rparr>)
             (''Battery Ram crashes through! Player '' @ show_int 1 @ '' wins!'')"
    by (simp add: calculateCastleDamage_def castleDamageLoop_Cons del: castleDamageLoop.simps)
  show b: "batteryRamWin (calculateCastleDamage s) = Some 1" by (simp add: e logMessage_def)
  show "castleDamage (calculateCastleDamage s) = castleDamage s" by (simp add: e logMessage_def)
  show "map_option winner (fst (checkWinCondition (calculateCastleDamage s))) = Some 1"
    using checkWinCondition_marker[OF b] by simp
  show "phase (castleAndWinStep s) = GAME_OVER" using castleAndWinStep_marker[OF b] by simp
next
  assume h: "\<not> hasUnengagedRam s 1 \<and> hasUnengagedRam s 2"
  then have h2: "hasUnengagedRam (countedState s 1) 2"
    by (simp add: hasUnengagedRam_units[OF countedState_units])
  from h h2 have e: "calculateCastleDamage s =
      logMessage ((countedState s 1)\<lparr>batteryRamWin := Some 2\<rparr>)
        (''Battery Ram crashes through! Player '' @ show_int 2 @ '' wins!'')"
    by (simp add: calculateCastleDamage_def castleDamageLoop_Cons del: castleDamageLoop.simps)
  show b: "batteryRamWin (calculateCastleDamage s) = Some 2" by (simp add: e logMessage_def)
  show "castleDamage (calculateCastleDamage s) 1 = castleDamage s 1"
    by (simp add: e logMessage_def countedState_1)
  show "castleDamage (calculateCastleDamage s) 2 = castleDamage s 2
          + int (length (filter (\<lambda>u. faction u = 1 \<and> row u = 0 \<and> isAlive u \<and> \<not> isEngaged s u)
                           (units s)))"
    by (simp add: e logMessage_def countedState_1)
  show "map_option winner (fst (checkWinCondition (calculateCastleDamage s))) = Some 2"
    using checkWinCondition_marker[OF b] by simp
  show "phase (castleAndWinStep s) = GAME_OVER" using castleAndWinStep_marker[OF b] by simp
qed

theorem batteryRam_instant_win_witness:
  "hasUnengagedRam ramState1 1
   \<and> batteryRamWin (calculateCastleDamage ramState1) = Some 1
   \<and> castleDamage (calculateCastleDamage ramState1) = castleDamage ramState1
   \<and> phase (castleAndWinStep ramState1) = GAME_OVER
   \<and> \<not> hasUnengagedRam ramState 1 \<and> hasUnengagedRam ramState 2
   \<and> batteryRamWin (calculateCastleDamage ramState) = Some 2
   \<and> castleDamage (calculateCastleDamage ramState) 1 = castleDamage ramState 1
   \<and> phase (castleAndWinStep ramState) = GAME_OVER"
proof -
  have h1: "hasUnengagedRam ramState1 1" by code_simp
  have h2: "\<not> hasUnengagedRam ramState 1 \<and> hasUnengagedRam ramState 2" by code_simp
  from batteryRam_instant_win[of ramState1] h1
  have a: "batteryRamWin (calculateCastleDamage ramState1) = Some 1
      \<and> castleDamage (calculateCastleDamage ramState1) = castleDamage ramState1
      \<and> phase (castleAndWinStep ramState1) = GAME_OVER" by blast
  from batteryRam_instant_win[of ramState] h2
  have b: "batteryRamWin (calculateCastleDamage ramState) = Some 2
      \<and> castleDamage (calculateCastleDamage ramState) 1 = castleDamage ramState 1
      \<and> phase (castleAndWinStep ramState) = GAME_OVER" by blast
  from h1 h2 a b show ?thesis by blast
qed

section \<open>The scan for ability targets\<close>

text \<open>
  Claim C6 on the code. In \<open>jesterState\<close> the phase is the movement phase of faction 2,
  and the Jesters unit of faction 1 is alive, not engaged, and has an enemy in its Taunt
  target set; \<open>getUnitsNeedingAbilityTargets\<close> returns no unit, and \<open>endPhase\<close> goes
  to \<open>RESOLUTION_COMBAT\<close> without a targeting session.
\<close>

theorem jesters_not_scanned:
  "phase jesterState = FACTION_2
   \<and> isAlive (units jesterState ! 0)
   \<and> \<not> isEngaged jesterState (units jesterState ! 0)
   \<and> getJestersTauntTargets jesterState (units jesterState ! 0) = [1]
   \<and> getUnitsNeedingAbilityTargets jesterState = []
   \<and> phase (endPhase jesterState) = RESOLUTION_COMBAT
   \<and> abilityTargeting (endPhase jesterState) = None"
  by code_simp

theorem jesters_not_scanned_witness:
  "getJestersTauntTargets jesterState (units jesterState ! 0) \<noteq> []
   \<and> length (getUnitsNeedingAbilityTargets jesterState) = 0
   \<and> phase (endPhase jesterState) \<noteq> ABILITY_TARGETING"
  using jesters_not_scanned by simp


section \<open>The charge of Mounted units\<close>

lemmas board_defs = getFactionUnitsAt_def getUnitsAt_def getAdjacentHexes_def js_rem_def
  isEngaged_def Let_def exampleUnit_def createGameState_def

lemmas UnitTypes_defs =
  ARCHERS_def CANNON_def MOUNTED_def ASSAULT_BEASTS_def SPEARS_def JESTERS_def
  MUSKETS_def AERIAL_def COMMANDER_def MILITIA_def BATTERY_RAM_def

lemma chargeState_moves:
  "getValidMoves chargeState (units chargeState ! 0)
     = Some [(2, 0), (4, 0), (2, 1), (3, 1), (3, 0)]"
  by (simp add: getValidMoves_def chargeState_def movesLoop.simps board_defs UnitTypes_defs)

lemma chargeState_first_move:
  "units (moveUnit noPick chargeState 0 3 0)
     = [(exampleUnit ''h1'' MOUNTED 1 3 0 1)\<lparr>movedThisTurn := True\<rparr>,
        exampleUnit ''a1'' ARCHERS 2 2 0 1]"
  "pendingSecondMove (moveUnit noPick chargeState 0 3 0) = Some ''h1''"
  "activatedUnits (moveUnit noPick chargeState 0 3 0) = {}"
  by (simp_all add: moveUnit_def chargeState_def logMessage_def board_defs UnitTypes_defs)

lemma chargeState_second_moves:
  "getValidMoves (moveUnit noPick chargeState 0 3 0)
        (units (moveUnit noPick chargeState 0 3 0) ! 0)
     = Some [(2, 0), (4, 0), (2, 1), (3, 1), (3, 0)]"
  by (simp add: getValidMoves_def chargeState_first_move movesLoop.simps board_defs UnitTypes_defs)

lemma chargeState_second_move:
  "damage (units (moveUnit noPick (moveUnit noPick chargeState 0 3 0) 0 2 0) ! 1) = 2"
  "''h1'' \<in> activatedUnits (moveUnit noPick (moveUnit noPick chargeState 0 3 0) 0 2 0)"
  by (simp_all add: moveUnit_def[of noPick "moveUnit noPick chargeState 0 3 0"]
        chargeState_first_move logMessage_def applyMountedChargeBonus_def applyDamage_def
        board_defs UnitTypes_defs)

text \<open>
  Claim C3 on the code. In \<open>chargeState\<close> a Mounted unit of faction 1 stands at (3, 0)
  next to an enemy at (2, 0). Its own hex is a legal destination; moving there is its
  first move, of 0 hex-steps, after which it is pending a second move and has not acted.
  The enemy's hex is then a legal destination, and that second move, of 1 hex-step,
  deals the charge bonus of 2 to the enemy: the two moves cover 1 hex-step in total.
\<close>

theorem mounted_charge_after_one_step:
  "getValidMoves chargeState (units chargeState ! 0)
     = Some [(2, 0), (4, 0), (2, 1), (3, 1), (3, 0)]
   \<and> hexDistance 3 0 3 0 = 0
   \<and> pendingSecondMove (moveUnit noPick chargeState 0 3 0) = Some ''h1''
   \<and> ''h1'' \<notin> activatedUnits (moveUnit noPick chargeState 0 3 0)
   \<and> getValidMoves (moveUnit noPick chargeState 0 3 0)
        (units (moveUnit noPick chargeState 0 3 0) ! 0)
     = Some [(2, 0), (4, 0), (2, 1), (3, 1), (3, 0)]
   \<and> hexDistance 3 0 2 0 = 1
   \<and> damage (units chargeState ! 1) = 0
   \<and> damage (units (moveUnit noPick (moveUnit noPick chargeState 0 3 0) 0 2 0) ! 1) = 2
   \<and> ''h1'' \<in> activatedUnits (moveUnit noPick (moveUnit noPick chargeState 0 3 0) 0 2 0)"
proof -
  have d: "hexDistance 3 0 3 0 = 0" "hexDistance 3 0 2 0 = 1" "damage (units chargeState ! 1) = 0"
    by code_simp+
  from chargeState_first_move(3) have n: "''h1'' \<notin> activatedUnits (moveUnit noPick chargeState 0 3 0)"
    by simp
  from chargeState_moves d chargeState_first_move(2) n chargeState_second_moves
    chargeState_second_move
  show ?thesis by blast
qed

theorem mounted_charge_after_one_step_witness:
  "hexDistance 3 0 3 0 + hexDistance 3 0 2 0 = 1
   \<and> damage (units (moveUnit noPick (moveUnit noPick chargeState 0 3 0) 0 2 0) ! 1)
       = damage (units chargeState ! 1) + 2"
  using mounted_charge_after_one_step by simp


section \<open>Combat resolution\<close>

subsection \<open>Lists of units that differ only in damage\<close>

lemma damaged_refl: "damaged (\<lambda>_. 0) us us"
  by (simp add: damaged_def)

lemma damaged_trans:
  assumes "damaged d1 us us'" and "damaged d2 us' us''"
  shows "damaged (\<lambda>j. d1 j + d2 j) us us''"
  using assms by (simp add: damaged_def add.assoc)

lemma damaged_length: "damaged d us us' \<Longrightarrow> length us' = length us"
  by (simp add: damaged_def)

lemma damaged_nth:
  "damaged d us us' \<Longrightarrow> j < length us \<Longrightarrow> us' ! j = (us ! j)\<lparr>damage := damage (us ! j) + d j\<rparr>"
  by (simp add: damaged_def)

lemma damaged_utype: "damaged d us us' \<Longrightarrow> j < length us \<Longrightarrow> utype (us' ! j) = utype (us ! j)"
  by (simp add: damaged_def)

lemma damaged_damage:
  "damaged d us us' \<Longrightarrow> j < length us \<Longrightarrow> damage (us' ! j) = damage (us ! j) + d j"
  by (simp add: damaged_def)

lemma damaged_cong:
  assumes "damaged d us us'" and "\<And>j. j < length us \<Longrightarrow> d j = d' j"
  shows "damaged d' us us'"
  using assms by (simp add: damaged_def)

lemma damaged_applyDamage:
  "damaged (\<lambda>j. if j = i then amount else 0) (units s) (units (applyDamage s i amount src))"
  by (simp add: damaged_def applyDamage_units nth_list_update)

lemma damaged_foldl_applyDamage:
  "damaged (\<lambda>j. sum_list (map (\<lambda>(e, idx). if e = j then f idx else 0) ps))
     (units s)
     (units (foldl (\<lambda>st (enemy, idx). applyDamage st enemy (f idx) None) s ps))"
proof (induction ps arbitrary: s)
  case Nil
  show ?case by (simp add: damaged_refl)
next
  case (Cons p ps)
  obtain e idx where p: "p = (e, idx)" by (cases p)
  have a: "damaged (\<lambda>j. if e = j then f idx else 0) (units s)
             (units (applyDamage s e (f idx) None))"
    by (rule damaged_cong[OF damaged_applyDamage]) auto
  from damaged_trans[OF a Cons.IH[of "applyDamage s e (f idx) None"]]
  show ?case by (simp add: p)
qed

subsection \<open>One side of a group attacks\<close>

lemma totalDamage_combatTotal: "totalDamage us = combatTotal us"
proof -
  have "\<And>k. foldl (\<lambda>sum u. sum + (if type_id (utype u) = type_id MILITIA then 3 else 2)) k us
           = k + combatTotal us"
    by (induction us) (simp_all add: combatTotal_def)
  then show ?thesis by (simp add: totalDamage_def)
qed

lemma combatTotal_nonneg: "0 \<le> combatTotal us"
  by (induction us) (simp_all add: combatTotal_def)

lemma js_rem_mod: "0 \<le> a \<Longrightarrow> 0 < b \<Longrightarrow> js_rem a b = a mod b"
  by (simp add: js_rem_def sgn_if)

lemma damaged_attackSide:
  "damaged (attackDelta (totalDamage (map (\<lambda>i. units s ! i) attackers)) defenders)
     (units s) (units (attackSide None s attackers defenders attackingFaction))"
proof (cases "length defenders = 1")
  case True
  then obtain d where d: "defenders = [d]" by (cases defenders) simp_all
  have "js_rem t 1 = 0" for t by (simp add: js_rem_def)
  then have "attackDelta t [d] = (\<lambda>j. if j = d then t else 0)" for t
    by (simp add: attackDelta_def fun_eq_iff)
  then show ?thesis by (simp add: attackSide_def d Let_def damaged_applyDamage)
next
  case False
  then have e: "units (attackSide None s attackers defenders attackingFaction)
      = units (foldl (\<lambda>st (enemy, idx). applyDamage st enemy
            (totalDamage (map (\<lambda>i. units s ! i) attackers) div int (length defenders)
               + (if int idx < js_rem (totalDamage (map (\<lambda>i. units s ! i) attackers))
                                 (int (length defenders)) then 1 else 0)) None)
          s (zip defenders [0..<length defenders]))"
    by (simp add: attackSide_def Let_def)
  show ?thesis unfolding e
    by (rule damaged_cong[OF damaged_foldl_applyDamage]) (simp add: attackDelta_def)
qed

lemma sum_list_zero: "(\<And>x. x \<in> set xs \<Longrightarrow> h x = (0::int)) \<Longrightarrow> sum_list (map h xs) = 0"
  by (induction xs) simp_all

lemma attackDelta_outside: "j \<notin> set ds \<Longrightarrow> attackDelta amount ds j = 0"
  unfolding attackDelta_def
  by (rule sum_list_zero) (auto dest: set_zip_leftD)

lemma sum_list_zip_upt:
  "sum_list (map h (zip ds [0..<length ds])) = (\<Sum>i<length ds. h (ds ! i, i))"
proof -
  have "sum_list (map h (zip ds [0..<length ds]))
          = (\<Sum>i = 0..<length (map h (zip ds [0..<length ds])). map h (zip ds [0..<length ds]) ! i)"
    by (rule sum_list_sum_nth)
  also have "\<dots> = (\<Sum>i = 0..<length ds. h (ds ! i, i))"
    by (rule sum.cong) simp_all
  finally show ?thesis by (simp add: lessThan_atLeast0)
qed

lemma attackDelta_share:
  assumes "distinct ds" and "k < length ds" and "0 \<le> amount"
  shows "attackDelta amount ds (ds ! k) = fallbackShare amount (length ds) k"
proof -
  have n: "0 < int (length ds)" using assms(2) by auto
  have e: "\<And>i. i < length ds \<Longrightarrow> (ds ! i = ds ! k) = (i = k)"
    using assms(1,2) by (simp add: nth_eq_iff_index_eq)
  have "attackDelta amount ds (ds ! k)
          = (\<Sum>i<length ds. if ds ! i = ds ! k
               then amount div int (length ds)
                      + (if int i < js_rem amount (int (length ds)) then 1 else 0)
               else 0)"
    unfolding attackDelta_def sum_list_zip_upt by simp
  also have "\<dots> = (\<Sum>i<length ds. if i = k
               then amount div int (length ds)
                      + (if int i < js_rem amount (int (length ds)) then 1 else 0)
               else 0)"
    by (rule sum.cong) (simp_all add: e)
  also have "\<dots> = amount div int (length ds)
                      + (if int k < js_rem amount (int (length ds)) then 1 else 0)"
    using assms(2) by (simp add: sum.delta)
  finally show ?thesis
    by (simp add: fallbackShare_def js_rem_mod[OF assms(3) n])
qed


subsection \<open>Everything but damage is left alone\<close>

lemma sameUnits_refl: "sameUnits us us"
  by (simp add: sameUnits_def)

lemma sameUnits_trans: "sameUnits us us' \<Longrightarrow> sameUnits us' us'' \<Longrightarrow> sameUnits us us''"
  by (simp add: sameUnits_def)

lemma sameUnits_length: "sameUnits us us' \<Longrightarrow> length us' = length us"
  unfolding sameUnits_def by (rule map_eq_imp_length_eq)

lemma sameUnits_nth:
  assumes "sameUnits us us'" and "j < length us"
  shows "(us' ! j)\<lparr>damage := 0\<rparr> = (us ! j)\<lparr>damage := 0\<rparr>"
proof -
  from assms have l: "j < length us'" by (simp add: sameUnits_length)
  from assms(1) have "map (\<lambda>u. u\<lparr>damage := 0\<rparr>) us' ! j = map (\<lambda>u. u\<lparr>damage := 0\<rparr>) us ! j"
    by (simp add: sameUnits_def)
  with l assms(2) show ?thesis by simp
qed

lemma sameUnits_utype:
  assumes "sameUnits us us'" and "j < length us"
  shows "utype (us' ! j) = utype (us ! j)"
proof -
  have "utype (us' ! j) = utype ((us' ! j)\<lparr>damage := 0\<rparr>)" by simp
  also have "\<dots> = utype ((us ! j)\<lparr>damage := 0\<rparr>)" by (simp only: sameUnits_nth[OF assms])
  finally show ?thesis by simp
qed

lemma sameUnits_uid:
  assumes "sameUnits us us'"
  shows "map uid us' = map uid us"
proof -
  have "map uid us' = map uid (map (\<lambda>u. u\<lparr>damage := 0\<rparr>) us')" by (simp add: comp_def)
  also have "\<dots> = map uid (map (\<lambda>u. u\<lparr>damage := 0\<rparr>) us)"
    using assms by (simp only: sameUnits_def)
  finally show ?thesis by (simp add: comp_def)
qed

lemma damaged_sameUnits: "damaged d us us' \<Longrightarrow> sameUnits us us'"
  unfolding sameUnits_def damaged_def by (rule nth_equalityI) simp_all

lemma sameUnits_applyDamage: "sameUnits (units s) (units (applyDamage s i amount src))"
  by (rule damaged_sameUnits[OF damaged_applyDamage])

lemma sameUnits_foldl:
  assumes "\<And>st x. sameUnits (units st) (units (step st x))"
  shows "sameUnits (units s) (units (foldl step s xs))"
proof (induction xs arbitrary: s)
  case Nil
  show ?case by (simp add: sameUnits_refl)
next
  case (Cons x xs)
  from sameUnits_trans[OF assms[of s x] Cons.IH[of "step s x"]] show ?case by simp
qed

lemma sameUnits_attackSide:
  "sameUnits (units s) (units (attackSide alloc s attackers defenders attackingFaction))"
proof (cases "length defenders = 1")
  case True
  then show ?thesis by (simp add: attackSide_def Let_def sameUnits_applyDamage)
next
  case False
  show ?thesis
  proof (cases alloc)
    case None
    with False show ?thesis
      by (simp add: attackSide_def Let_def)
         (rule sameUnits_foldl, simp add: split_def sameUnits_applyDamage)
  next
    case (Some modal)
    with False show ?thesis
      by (simp add: attackSide_def Let_def)
         (rule sameUnits_foldl,
          simp add: split_def sameUnits_applyDamage sameUnits_refl split: option.splits)
  qed
qed

lemma totalDamage_sameUnits:
  assumes "sameUnits us us'" and "\<And>i. i \<in> set is \<Longrightarrow> i < length us"
  shows "totalDamage (map (\<lambda>i. us' ! i) is) = totalDamage (map (\<lambda>i. us ! i) is)"
proof -
  have "map (\<lambda>u. if type_id (utype u) = type_id MILITIA then 3 else (2::int)) (map (\<lambda>i. us' ! i) is)
      = map (\<lambda>u. if type_id (utype u) = type_id MILITIA then 3 else 2) (map (\<lambda>i. us ! i) is)"
    using assms by (simp add: sameUnits_utype)
  then show ?thesis by (simp only: totalDamage_combatTotal combatTotal_def)
qed

subsection \<open>A group, and the loop over the groups\<close>

lemma resolveGroup_halves:
  assumes "faction1 g \<noteq> []" and "faction2 g \<noteq> []"
  shows "resolveGroup alloc s g
           = attackSide alloc (afterFaction1 alloc s g) (faction2 g) (faction1 g) 2"
  using assms by (simp add: resolveGroup_def afterFaction1_def Let_def)

lemma sameUnits_afterFaction1: "sameUnits (units s) (units (afterFaction1 alloc s g))"
proof -
  have "sameUnits (units (s\<lparr>unitsInCombatThisTurn := X\<rparr>))
          (units (attackSide alloc (s\<lparr>unitsInCombatThisTurn := X\<rparr>) (faction1 g) (faction2 g) 1))"
    for X by (rule sameUnits_attackSide)
  then show ?thesis by (simp add: afterFaction1_def)
qed

lemma sameUnits_resolveGroup: "sameUnits (units s) (units (resolveGroup alloc s g))"
proof -
  have "sameUnits (units (s\<lparr>unitsInCombatThisTurn := X\<rparr>))
          (units (attackSide alloc (s\<lparr>unitsInCombatThisTurn := X\<rparr>) a b f))"
    for X a b f by (rule sameUnits_attackSide)
  then have m: "sameUnits (units s)
          (units (attackSide alloc (s\<lparr>unitsInCombatThisTurn := X\<rparr>) a b f))"
    for X a b f by simp
  show ?thesis
    unfolding resolveGroup_def Let_def
    by (auto intro: sameUnits_trans[OF m sameUnits_attackSide] simp add: sameUnits_refl)
qed

lemma sameUnits_resolveGroups:
  "sameUnits (units s) (units (resolveGroups alloc s gs))"
proof -
  have "sameUnits (units (logMessage s m)) (units (foldl (resolveGroup alloc) (logMessage s m) gs))"
    for m by (rule sameUnits_foldl) (rule sameUnits_resolveGroup)
  then show ?thesis by (simp add: resolveGroups_def logMessage_def)
qed

lemma damaged_resolveGroup:
  assumes n: "faction1 g \<noteq> []" "faction2 g \<noteq> []"
    and b: "\<And>i. i \<in> set (faction2 g) \<Longrightarrow> i < length (units s)"
  shows "damaged (groupDelta (units s) g) (units s) (units (resolveGroup None s g))"
proof -
  let ?m = "s\<lparr>unitsInCombatThisTurn :=
            unitsInCombatThisTurn s
              \<union> set (map (\<lambda>i. uid (units s ! i)) (faction1 g))
              \<union> set (map (\<lambda>i. uid (units s ! i)) (faction2 g))\<rparr>"
  let ?s1 = "afterFaction1 None s g"
  have "damaged (attackDelta (totalDamage (map (\<lambda>i. units ?m ! i) (faction1 g))) (faction2 g))
          (units ?m) (units (attackSide None ?m (faction1 g) (faction2 g) 1))"
    by (rule damaged_attackSide)
  then have d1: "damaged (attackDelta (totalDamage (map (\<lambda>i. units s ! i) (faction1 g))) (faction2 g))
          (units s) (units ?s1)"
    by (simp add: afterFaction1_def)
  have t: "totalDamage (map (\<lambda>i. units ?s1 ! i) (faction2 g))
             = totalDamage (map (\<lambda>i. units s ! i) (faction2 g))"
    by (rule totalDamage_sameUnits[OF sameUnits_afterFaction1 b])
  have "damaged (attackDelta (totalDamage (map (\<lambda>i. units ?s1 ! i) (faction2 g))) (faction1 g))
          (units ?s1) (units (attackSide None ?s1 (faction2 g) (faction1 g) 2))"
    by (rule damaged_attackSide)
  then have d2: "damaged (attackDelta (totalDamage (map (\<lambda>i. units s ! i) (faction2 g))) (faction1 g))
          (units ?s1) (units (resolveGroup None s g))"
    by (simp only: t resolveGroup_halves[OF n])
  show ?thesis
    by (rule damaged_cong[OF damaged_trans[OF d1 d2]]) (simp add: groupDelta_def)
qed

lemma groupDelta_sameUnits:
  assumes "sameUnits us us'"
    and "\<And>i. i \<in> set (faction1 g) \<Longrightarrow> i < length us"
    and "\<And>i. i \<in> set (faction2 g) \<Longrightarrow> i < length us"
  shows "groupDelta us' g j = groupDelta us g j"
  by (simp add: groupDelta_def totalDamage_sameUnits[OF assms(1,2)]
        totalDamage_sameUnits[OF assms(1,3)])


subsection \<open>The groups of a state\<close>

lemma getFactionUnitsAt_mem:
  "i \<in> set (getFactionUnitsAt s r c f)
     = (i < length (units s) \<and> row (units s ! i) = r \<and> col (units s ! i) = c
        \<and> isAlive (units s ! i) \<and> faction (units s ! i) = f)"
  by (auto simp add: getFactionUnitsAt_def getUnitsAt_def isAlive_def)

lemma getFactionUnitsAt_distinct: "distinct (getFactionUnitsAt s r c f)"
  by (simp add: getFactionUnitsAt_def getUnitsAt_def)

lemma groupOf_bound:
  assumes "groupOf s g"
  shows "i \<in> set (faction1 g) \<Longrightarrow> i < length (units s)"
    and "i \<in> set (faction2 g) \<Longrightarrow> i < length (units s)"
  using assms by (simp_all add: groupOf_def getFactionUnitsAt_mem)

lemma groupOf_hex:
  assumes "groupOf s g" and "i \<in> set (faction1 g) \<union> set (faction2 g)"
  shows "(row (units s ! i), col (units s ! i)) = hex g"
  using assms by (auto simp add: groupOf_def getFactionUnitsAt_mem)

lemma engagedGroupsLoop_invariant:
  assumes "processed = map hex groups" and "distinct (map hex groups)"
    and "\<And>g. g \<in> set groups \<Longrightarrow> groupOf s g"
  shows "distinct (map hex (engagedGroupsLoop s rest processed groups))
       \<and> (\<forall>g \<in> set (engagedGroupsLoop s rest processed groups). groupOf s g)
       \<and> set groups \<subseteq> set (engagedGroupsLoop s rest processed groups)
       \<and> (\<forall>u \<in> set rest. isAlive u
             \<and> getFactionUnitsAt s (row u) (col u) 1 \<noteq> []
             \<and> getFactionUnitsAt s (row u) (col u) 2 \<noteq> []
             \<longrightarrow> (row u, col u) \<in> hex ` set (engagedGroupsLoop s rest processed groups))"
  using assms
proof (induction rest arbitrary: processed groups)
  case Nil
  then show ?case by simp
next
  case (Cons unit rest)
  let ?h = "(row unit, col unit)"
  let ?g = "\<lparr>hex = ?h, faction1 = getFactionUnitsAt s (row unit) (col unit) 1,
             faction2 = getFactionUnitsAt s (row unit) (col unit) 2\<rparr>"
  show ?case
  proof (cases "isAlive unit \<and> ?h \<notin> set processed
                 \<and> getFactionUnitsAt s (row unit) (col unit) 1 \<noteq> []
                 \<and> getFactionUnitsAt s (row unit) (col unit) 2 \<noteq> []")
    case True
    then have e: "engagedGroupsLoop s (unit # rest) processed groups
                    = engagedGroupsLoop s rest (processed @ [?h]) (groups @ [?g])"
      by (simp add: Let_def)
    have p: "processed @ [?h] = map hex (groups @ [?g])" using Cons.prems(1) by simp
    have d: "distinct (map hex (groups @ [?g]))"
      using Cons.prems(1,2) True by simp
    have w: "\<And>g. g \<in> set (groups @ [?g]) \<Longrightarrow> groupOf s g"
      using Cons.prems(3) True by (auto simp add: groupOf_def)
    from Cons.IH[OF p d w]
    have ih: "distinct (map hex (engagedGroupsLoop s rest (processed @ [?h]) (groups @ [?g])))"
      "\<forall>g \<in> set (engagedGroupsLoop s rest (processed @ [?h]) (groups @ [?g])). groupOf s g"
      "set (groups @ [?g]) \<subseteq> set (engagedGroupsLoop s rest (processed @ [?h]) (groups @ [?g]))"
      "\<forall>u \<in> set rest. isAlive u
             \<and> getFactionUnitsAt s (row u) (col u) 1 \<noteq> []
             \<and> getFactionUnitsAt s (row u) (col u) 2 \<noteq> []
             \<longrightarrow> (row u, col u) \<in> hex ` set (engagedGroupsLoop s rest (processed @ [?h]) (groups @ [?g]))"
      by blast+
    from ih(3) have "?g \<in> set (engagedGroupsLoop s rest (processed @ [?h]) (groups @ [?g]))"
      by auto
    then have "?h \<in> hex ` set (engagedGroupsLoop s rest (processed @ [?h]) (groups @ [?g]))"
      by force
    with ih show ?thesis unfolding e by auto
  next
    case False
    then have e: "engagedGroupsLoop s (unit # rest) processed groups
                    = engagedGroupsLoop s rest processed groups"
      by (auto simp add: Let_def)
    from Cons.IH[OF Cons.prems]
    have ih: "distinct (map hex (engagedGroupsLoop s rest processed groups))"
      "\<forall>g \<in> set (engagedGroupsLoop s rest processed groups). groupOf s g"
      "set groups \<subseteq> set (engagedGroupsLoop s rest processed groups)"
      "\<forall>u \<in> set rest. isAlive u
             \<and> getFactionUnitsAt s (row u) (col u) 1 \<noteq> []
             \<and> getFactionUnitsAt s (row u) (col u) 2 \<noteq> []
             \<longrightarrow> (row u, col u) \<in> hex ` set (engagedGroupsLoop s rest processed groups)"
      by blast+
    have "isAlive unit \<and> getFactionUnitsAt s (row unit) (col unit) 1 \<noteq> []
             \<and> getFactionUnitsAt s (row unit) (col unit) 2 \<noteq> []
          \<Longrightarrow> ?h \<in> hex ` set (engagedGroupsLoop s rest processed groups)"
    proof -
      assume "isAlive unit \<and> getFactionUnitsAt s (row unit) (col unit) 1 \<noteq> []
             \<and> getFactionUnitsAt s (row unit) (col unit) 2 \<noteq> []"
      with False have "?h \<in> set processed" by blast
      then have "?h \<in> hex ` set groups" using Cons.prems(1) by simp
      with ih(3) show ?thesis by blast
    qed
    with ih show ?thesis unfolding e by auto
  qed
qed

lemma getEngagedGroups_groupOf: "g \<in> set (getEngagedGroups s) \<Longrightarrow> groupOf s g"
  using engagedGroupsLoop_invariant[of "[]" "[]" s "units s"]
  by (simp add: getEngagedGroups_def)

lemma getEngagedGroups_distinct: "distinct (map hex (getEngagedGroups s))"
  using engagedGroupsLoop_invariant[of "[]" "[]" s "units s"]
  by (simp add: getEngagedGroups_def)

lemma getEngagedGroups_complete:
  assumes "getFactionUnitsAt s r c 1 \<noteq> []" and "getFactionUnitsAt s r c 2 \<noteq> []"
  shows "\<exists>g \<in> set (getEngagedGroups s). hex g = (r, c)
           \<and> faction1 g = getFactionUnitsAt s r c 1 \<and> faction2 g = getFactionUnitsAt s r c 2"
proof -
  from assms(1) obtain i where i: "i \<in> set (getFactionUnitsAt s r c 1)"
    by (cases "getFactionUnitsAt s r c 1") auto
  then have u: "units s ! i \<in> set (units s)" "isAlive (units s ! i)"
    "row (units s ! i) = r" "col (units s ! i) = c"
    by (simp_all add: getFactionUnitsAt_mem)
  from engagedGroupsLoop_invariant[of "[]" "[]" s "units s"]
  have "\<forall>u \<in> set (units s). isAlive u
             \<and> getFactionUnitsAt s (row u) (col u) 1 \<noteq> []
             \<and> getFactionUnitsAt s (row u) (col u) 2 \<noteq> []
             \<longrightarrow> (row u, col u) \<in> hex ` set (getEngagedGroups s)"
    by (simp add: getEngagedGroups_def)
  with u assms have "(r, c) \<in> hex ` set (getEngagedGroups s)" by blast
  then obtain g where g: "g \<in> set (getEngagedGroups s)" "hex g = (r, c)" by auto
  from getEngagedGroups_groupOf[OF g(1)] g(2)
  have "faction1 g = getFactionUnitsAt s r c 1" "faction2 g = getFactionUnitsAt s r c 2"
    by (simp_all add: groupOf_def)
  with g show ?thesis by blast
qed


lemma damaged_foldl_resolveGroup:
  "(\<forall>g \<in> set gs. groupOf s0 g) \<Longrightarrow> sameUnits (units s0) (units st) \<Longrightarrow>
     damaged (\<lambda>j. sum_list (map (\<lambda>g. groupDelta (units s0) g j) gs))
       (units st) (units (foldl (resolveGroup None) st gs))"
proof (induction gs arbitrary: st)
  case Nil
  show ?case by (simp add: damaged_refl)
next
  case (Cons g gs)
  from Cons.prems(1) have gO: "groupOf s0 g" by simp
  then have n: "faction1 g \<noteq> []" "faction2 g \<noteq> []" unfolding groupOf_def by blast+
  have len: "length (units st) = length (units s0)"
    by (rule sameUnits_length[OF Cons.prems(2)])
  have b: "\<And>i. i \<in> set (faction2 g) \<Longrightarrow> i < length (units st)"
    using groupOf_bound(2)[OF gO] len by simp
  have d1: "damaged (groupDelta (units st) g) (units st) (units (resolveGroup None st g))"
    by (rule damaged_resolveGroup[OF n b])
  have e: "\<And>j. groupDelta (units st) g j = groupDelta (units s0) g j"
    by (rule groupDelta_sameUnits[OF Cons.prems(2) groupOf_bound[OF gO]])
  have su: "sameUnits (units s0) (units (resolveGroup None st g))"
    by (rule sameUnits_trans[OF Cons.prems(2) sameUnits_resolveGroup])
  from Cons.prems(1) have r: "\<forall>g \<in> set gs. groupOf s0 g" by simp
  have d2: "damaged (\<lambda>j. sum_list (map (\<lambda>g. groupDelta (units s0) g j) gs))
       (units (resolveGroup None st g)) (units (foldl (resolveGroup None) (resolveGroup None st g) gs))"
    by (rule Cons.IH[OF r su])
  have "damaged (\<lambda>j. groupDelta (units s0) g j
                       + sum_list (map (\<lambda>g. groupDelta (units s0) g j) gs))
       (units st) (units (foldl (resolveGroup None) (resolveGroup None st g) gs))"
    by (rule damaged_cong[OF damaged_trans[OF d1 d2]]) (simp add: e)
  then show ?case by simp
qed

lemma resolveGroups_damage:
  assumes a: "getFactionUnitsAt s r c 1 \<noteq> []" and d: "getFactionUnitsAt s r c 2 \<noteq> []"
    and j: "j \<in> set (getFactionUnitsAt s r c 1) \<union> set (getFactionUnitsAt s r c 2)"
  shows "damage (units (resolveGroups None s (getEngagedGroups s)) ! j)
           = damage (units s ! j)
             + attackDelta (totalDamage (map (\<lambda>i. units s ! i) (getFactionUnitsAt s r c 1)))
                 (getFactionUnitsAt s r c 2) j
             + attackDelta (totalDamage (map (\<lambda>i. units s ! i) (getFactionUnitsAt s r c 2)))
                 (getFactionUnitsAt s r c 1) j"
proof -
  from getEngagedGroups_complete[OF a d] obtain g0 where g0: "g0 \<in> set (getEngagedGroups s)"
    "hex g0 = (r, c)" "faction1 g0 = getFactionUnitsAt s r c 1"
    "faction2 g0 = getFactionUnitsAt s r c 2" by blast
  from j have jl: "j < length (units s)" and jh: "(row (units s ! j), col (units s ! j)) = (r, c)"
    by (auto simp add: getFactionUnitsAt_mem)
  from split_list[OF g0(1)] obtain xs ys where sp: "getEngagedGroups s = xs @ g0 # ys" by blast
  have other: "groupDelta (units s) g j = 0" if g: "g \<in> set xs \<union> set ys" for g
  proof -
    from getEngagedGroups_distinct[of s] have "hex g0 \<notin> hex ` (set xs \<union> set ys)"
      unfolding sp by auto
    with g have ne: "hex g \<noteq> hex g0" by (metis imageI)
    from g have "g \<in> set (getEngagedGroups s)" unfolding sp by auto
    then have gO: "groupOf s g" by (rule getEngagedGroups_groupOf)
    have "j \<notin> set (faction1 g) \<union> set (faction2 g)"
    proof
      assume "j \<in> set (faction1 g) \<union> set (faction2 g)"
      from groupOf_hex[OF gO this] jh g0(2) ne show False by simp
    qed
    then show ?thesis by (simp add: groupDelta_def attackDelta_outside)
  qed
  have "sum_list (map (\<lambda>g. groupDelta (units s) g j) (getEngagedGroups s))
          = groupDelta (units s) g0 j"
    unfolding sp using other by (simp add: sum_list_zero)
  moreover
  have "damaged (\<lambda>j. sum_list (map (\<lambda>g. groupDelta (units s) g j) (getEngagedGroups s)))
          (units (logMessage s m)) (units (foldl (resolveGroup None) (logMessage s m) (getEngagedGroups s)))"
    for m
    by (rule damaged_foldl_resolveGroup)
       (simp_all add: getEngagedGroups_groupOf logMessage_def sameUnits_refl)
  then have "damaged (\<lambda>j. sum_list (map (\<lambda>g. groupDelta (units s) g j) (getEngagedGroups s)))
          (units s) (units (resolveGroups None s (getEngagedGroups s)))"
    by (simp add: resolveGroups_def logMessage_def)
  from damaged_damage[OF this jl]
  have "damage (units (resolveGroups None s (getEngagedGroups s)) ! j)
          = damage (units s ! j)
            + sum_list (map (\<lambda>g. groupDelta (units s) g j) (getEngagedGroups s))" .
  ultimately show ?thesis by (simp add: groupDelta_def g0)
qed

lemma fallbackShare_one: "fallbackShare t (Suc 0) k = t"
  by (simp add: fallbackShare_def)

lemma share_cases:
  assumes "distinct ds" and "k < length ds" and "set ds \<inter> set as = {}"
  shows "attackDelta (totalDamage us) ds (ds ! k) + attackDelta t as (ds ! k)
           = (if length ds = 1 then combatTotal us
              else fallbackShare (combatTotal us) (length ds) k)"
proof -
  from assms(2,3) have "ds ! k \<notin> set as" by (meson disjoint_iff nth_mem)
  then have "attackDelta t as (ds ! k) = 0" by (rule attackDelta_outside)
  moreover have "attackDelta (totalDamage us) ds (ds ! k)
                   = fallbackShare (combatTotal us) (length ds) k"
    unfolding totalDamage_combatTotal
    by (rule attackDelta_share[OF assms(1,2) combatTotal_nonneg])
  ultimately show ?thesis by (simp add: fallbackShare_one)
qed

lemma factions_disjoint:
  "set (getFactionUnitsAt s r c 1) \<inter> set (getFactionUnitsAt s r c 2) = {}"
  by (auto simp add: getFactionUnitsAt_mem)

lemma resolveCombatAsync_units:
  "getEngagedGroups s \<noteq> [] \<Longrightarrow>
     units (resolveCombatAsync s alloc)
       = filter isAlive (units (resolveGroups alloc s (getEngagedGroups s)))"
  by (simp add: resolveCombatAsync_def Let_def removeDeadUnits_units)


subsection \<open>One side attacks, with or without an allocator\<close>

lemma sameUnits_uid_nth:
  assumes "sameUnits us us'" and "j < length us"
  shows "uid (us' ! j) = uid (us ! j)"
proof -
  have "uid (us' ! j) = uid ((us' ! j)\<lparr>damage := 0\<rparr>)" by simp
  also have "\<dots> = uid ((us ! j)\<lparr>damage := 0\<rparr>)" by (simp only: sameUnits_nth[OF assms])
  finally show ?thesis by simp
qed

lemma find_uid_sameUnits:
  assumes "sameUnits us us'" and "\<And>i. i \<in> set ds \<Longrightarrow> i < length us"
  shows "find (\<lambda>i. uid (us' ! i) = x) ds = find (\<lambda>i. uid (us ! i) = x) ds"
  by (rule find_cong) (simp_all add: sameUnits_uid_nth[OF assms(1)] assms(2))

lemma damaged_unchanged:
  assumes "damaged d us us'" and "j < length us" and "d j = 0"
  shows "us' ! j = us ! j"
  using damaged_nth[OF assms(1,2)] assms(3) by simp

lemma damaged_foldl_allocation:
  "sameUnits (units s0) (units st) \<Longrightarrow> (\<forall>i \<in> set ds. i < length (units s0)) \<Longrightarrow>
     damaged (allocated (units s0) ds entries) (units st)
       (units (foldl (\<lambda>st (enemyId, dmg).
                 case find (\<lambda>i. uid (units st ! i) = enemyId) ds of
                   Some enemy \<Rightarrow> if dmg > 0 then applyDamage st enemy dmg None else st
                 | None \<Rightarrow> st)
               st entries))"
proof (induction entries arbitrary: st)
  case Nil
  have "damaged (allocated (units s0) ds []) (units st) (units st)"
    by (rule damaged_cong[OF damaged_refl]) (simp add: allocated_def)
  then show ?case by simp
next
  case (Cons p entries)
  obtain enemyId dmg where p: "p = (enemyId, dmg)" by (cases p)
  let ?step = "\<lambda>st (enemyId, dmg).
                 case find (\<lambda>i. uid (units st ! i) = enemyId) ds of
                   Some enemy \<Rightarrow> if dmg > 0 then applyDamage st enemy dmg None else st
                 | None \<Rightarrow> st"
  let ?f = "find (\<lambda>i. uid (units s0 ! i) = enemyId) ds"
  have fe: "find (\<lambda>i. uid (units st ! i) = enemyId) ds = ?f"
    by (rule find_uid_sameUnits[OF Cons.prems(1)]) (simp add: Cons.prems(2))
  have d1: "damaged (\<lambda>j. if ?f = Some j \<and> dmg > 0 then dmg else 0)
              (units st) (units (?step st (enemyId, dmg)))"
  proof (cases "?f")
    case None
    then show ?thesis by (simp add: fe damaged_refl)
  next
    case (Some e)
    show ?thesis
    proof (cases "dmg > 0")
      case True
      have "damaged (\<lambda>j. if j = e then dmg else 0) (units st) (units (applyDamage st e dmg None))"
        by (rule damaged_applyDamage)
      then have "damaged (\<lambda>j. if ?f = Some j \<and> dmg > 0 then dmg else 0)
              (units st) (units (applyDamage st e dmg None))"
        by (rule damaged_cong) (auto simp add: Some True)
      then show ?thesis by (simp add: fe Some True)
    next
      case False
      then show ?thesis by (simp add: fe Some damaged_refl)
    qed
  qed
  have su: "sameUnits (units s0) (units (?step st (enemyId, dmg)))"
    by (rule sameUnits_trans[OF Cons.prems(1) damaged_sameUnits[OF d1]])
  have d2: "damaged (allocated (units s0) ds entries) (units (?step st (enemyId, dmg)))
              (units (foldl ?step (?step st (enemyId, dmg)) entries))"
    by (rule Cons.IH[OF su Cons.prems(2)])
  have "damaged (allocated (units s0) ds ((enemyId, dmg) # entries)) (units st)
              (units (foldl ?step (?step st (enemyId, dmg)) entries))"
    by (rule damaged_cong[OF damaged_trans[OF d1 d2]]) (simp add: allocated_def)
  then show ?case by (simp add: p)
qed

lemma attackDelta_lone: "attackDelta t [d] j = (if j = d then t else 0)"
  by (simp add: attackDelta_def js_rem_def)

lemma sideDelta_None: "sideDelta None us attackers ds f j
                         = attackDelta (totalDamage (map (\<lambda>i. us ! i) attackers)) ds j"
proof (cases "length ds = 1")
  case True
  then obtain d where d: "ds = [d]" by (cases ds) simp_all
  show ?thesis by (simp add: sideDelta_def d attackDelta_lone)
next
  case False
  then show ?thesis by (simp add: sideDelta_def)
qed

lemma damaged_attackSide_any:
  assumes b: "\<forall>i \<in> set ds. i < length (units s)"
  shows "damaged (sideDelta alloc (units s) attackers ds attackingFaction)
           (units s) (units (attackSide alloc s attackers ds attackingFaction))"
proof (cases alloc)
  case None
  have "damaged (attackDelta (totalDamage (map (\<lambda>i. units s ! i) attackers)) ds)
     (units s) (units (attackSide None s attackers ds attackingFaction))"
    by (rule damaged_attackSide)
  then show ?thesis unfolding None
    by (rule damaged_cong) (simp add: sideDelta_None)
next
  case (Some modal)
  show ?thesis
  proof (cases "length ds = 1")
    case True
    have "damaged (\<lambda>j. if j = ds ! 0 then totalDamage (map (\<lambda>i. units s ! i) attackers) else 0)
            (units s)
            (units (applyDamage s (ds ! 0) (totalDamage (map (\<lambda>i. units s ! i) attackers)) None))"
      by (rule damaged_applyDamage)
    then have "damaged (sideDelta alloc (units s) attackers ds attackingFaction) (units s)
            (units (applyDamage s (ds ! 0) (totalDamage (map (\<lambda>i. units s ! i) attackers)) None))"
      by (rule damaged_cong) (use True in \<open>simp add: sideDelta_def\<close>)
    with True show ?thesis by (simp add: attackSide_def Let_def)
  next
    case False
    have "damaged (allocated (units s) ds
                     (modal (map (\<lambda>i. units s ! i) ds)
                        (totalDamage (map (\<lambda>i. units s ! i) attackers)) attackingFaction))
            (units s)
            (units (foldl (\<lambda>st (enemyId, dmg).
                 case find (\<lambda>i. uid (units st ! i) = enemyId) ds of
                   Some enemy \<Rightarrow> if dmg > 0 then applyDamage st enemy dmg None else st
                 | None \<Rightarrow> st)
               s (modal (map (\<lambda>i. units s ! i) ds)
                        (totalDamage (map (\<lambda>i. units s ! i) attackers)) attackingFaction)))"
      by (rule damaged_foldl_allocation[OF sameUnits_refl b])
    then have "damaged (sideDelta alloc (units s) attackers ds attackingFaction) (units s)
            (units (foldl (\<lambda>st (enemyId, dmg).
                 case find (\<lambda>i. uid (units st ! i) = enemyId) ds of
                   Some enemy \<Rightarrow> if dmg > 0 then applyDamage st enemy dmg None else st
                 | None \<Rightarrow> st)
               s (modal (map (\<lambda>i. units s ! i) ds)
                        (totalDamage (map (\<lambda>i. units s ! i) attackers)) attackingFaction)))"
      by (rule damaged_cong) (use False in \<open>simp add: sideDelta_def Some\<close>)
    with False show ?thesis by (simp add: attackSide_def Let_def Some)
  qed
qed

lemma allocated_outside: "j \<notin> set ds \<Longrightarrow> allocated us ds entries j = 0"
  unfolding allocated_def
  by (rule sum_list_zero) (auto simp add: find_Some_iff)

lemma sideDelta_outside: "j \<notin> set ds \<Longrightarrow> sideDelta alloc us attackers ds f j = 0"
proof (cases "length ds = 1")
  case True
  assume j: "j \<notin> set ds"
  from True obtain d where d: "ds = [d]" by (cases ds) simp_all
  with j show ?thesis by (simp add: sideDelta_def)
next
  case False
  assume j: "j \<notin> set ds"
  with False show ?thesis
    by (cases alloc) (simp_all add: sideDelta_def attackDelta_outside allocated_outside)
qed

lemma sideDelta_cong:
  assumes su: "sameUnits us us'"
    and ba: "\<And>i. i \<in> set attackers \<Longrightarrow> i < length us"
    and bd: "\<And>i. i \<in> set ds \<Longrightarrow> i < length us"
    and eq: "\<And>i. i \<in> set ds \<Longrightarrow> us' ! i = us ! i"
  shows "sideDelta alloc us' attackers ds f j = sideDelta alloc us attackers ds f j"
proof -
  have t: "totalDamage (map (\<lambda>i. us' ! i) attackers) = totalDamage (map (\<lambda>i. us ! i) attackers)"
    by (rule totalDamage_sameUnits[OF su ba])
  have m: "map (\<lambda>i. us' ! i) ds = map (\<lambda>i. us ! i) ds"
    by (rule map_cong) (simp_all add: eq)
  have f: "\<And>x. find (\<lambda>i. uid (us' ! i) = x) ds = find (\<lambda>i. uid (us ! i) = x) ds"
    by (rule find_uid_sameUnits[OF su bd])
  have a: "\<And>entries. allocated us' ds entries j = allocated us ds entries j"
    by (simp add: allocated_def f)
  show ?thesis
    by (simp add: sideDelta_def t m a eq split: option.splits)
qed


subsection \<open>A group and the loop, with or without an allocator\<close>

lemma groupDeltaWith_outside:
  "j \<notin> set (faction1 g) \<union> set (faction2 g) \<Longrightarrow> groupDeltaWith alloc us g j = 0"
  by (simp add: groupDeltaWith_def sideDelta_outside)

lemma groupDeltaWith_cong:
  assumes su: "sameUnits us us'"
    and b1: "\<And>i. i \<in> set (faction1 g) \<Longrightarrow> i < length us"
    and b2: "\<And>i. i \<in> set (faction2 g) \<Longrightarrow> i < length us"
    and e1: "\<And>i. i \<in> set (faction1 g) \<Longrightarrow> us' ! i = us ! i"
    and e2: "\<And>i. i \<in> set (faction2 g) \<Longrightarrow> us' ! i = us ! i"
  shows "groupDeltaWith alloc us' g j = groupDeltaWith alloc us g j"
  by (simp add: groupDeltaWith_def sideDelta_cong[OF su b1 b2 e2] sideDelta_cong[OF su b2 b1 e1])

lemma damaged_resolveGroup_any:
  assumes n: "faction1 g \<noteq> []" "faction2 g \<noteq> []"
    and b1: "\<And>i. i \<in> set (faction1 g) \<Longrightarrow> i < length (units s)"
    and b2: "\<And>i. i \<in> set (faction2 g) \<Longrightarrow> i < length (units s)"
    and dis: "set (faction1 g) \<inter> set (faction2 g) = {}"
  shows "damaged (groupDeltaWith alloc (units s) g) (units s) (units (resolveGroup alloc s g))"
proof -
  let ?m = "s\<lparr>unitsInCombatThisTurn :=
            unitsInCombatThisTurn s
              \<union> set (map (\<lambda>i. uid (units s ! i)) (faction1 g))
              \<union> set (map (\<lambda>i. uid (units s ! i)) (faction2 g))\<rparr>"
  let ?s1 = "afterFaction1 alloc s g"
  have "damaged (sideDelta alloc (units ?m) (faction1 g) (faction2 g) 1)
          (units ?m) (units (attackSide alloc ?m (faction1 g) (faction2 g) 1))"
    by (rule damaged_attackSide_any) (simp add: b2)
  then have d1: "damaged (sideDelta alloc (units s) (faction1 g) (faction2 g) 1)
          (units s) (units ?s1)"
    by (simp add: afterFaction1_def)
  have su: "sameUnits (units s) (units ?s1)" by (rule sameUnits_afterFaction1)
  have len: "length (units ?s1) = length (units s)" by (rule sameUnits_length[OF su])
  have e1: "units ?s1 ! i = units s ! i" if i: "i \<in> set (faction1 g)" for i
  proof -
    from i dis have "i \<notin> set (faction2 g)" by blast
    then have "sideDelta alloc (units s) (faction1 g) (faction2 g) 1 i = 0"
      by (rule sideDelta_outside)
    from damaged_unchanged[OF d1 b1[OF i] this] show ?thesis .
  qed
  have "damaged (sideDelta alloc (units ?s1) (faction2 g) (faction1 g) 2)
          (units ?s1) (units (attackSide alloc ?s1 (faction2 g) (faction1 g) 2))"
    by (rule damaged_attackSide_any) (simp add: b1 len)
  then have d2: "damaged (sideDelta alloc (units s) (faction2 g) (faction1 g) 2)
          (units ?s1) (units (resolveGroup alloc s g))"
    unfolding resolveGroup_halves[OF n]
    by (rule damaged_cong) (simp add: sideDelta_cong[OF su b2 b1 e1])
  show ?thesis
    by (rule damaged_cong[OF damaged_trans[OF d1 d2]]) (simp add: groupDeltaWith_def)
qed

lemma groupOf_disjoint: "groupOf s g \<Longrightarrow> set (faction1 g) \<inter> set (faction2 g) = {}"
  by (auto simp add: groupOf_def getFactionUnitsAt_mem)

lemma damaged_foldl_resolveGroup_any:
  "(\<forall>g \<in> set gs. groupOf s0 g) \<Longrightarrow> distinct (map hex gs)
     \<Longrightarrow> sameUnits (units s0) (units st)
     \<Longrightarrow> (\<forall>g \<in> set gs. \<forall>i \<in> set (faction1 g) \<union> set (faction2 g). units st ! i = units s0 ! i)
     \<Longrightarrow> damaged (\<lambda>j. sum_list (map (\<lambda>g. groupDeltaWith alloc (units s0) g j) gs))
           (units st) (units (foldl (resolveGroup alloc) st gs))"
proof (induction gs arbitrary: st)
  case Nil
  show ?case by (simp add: damaged_refl)
next
  case (Cons g gs)
  let ?st1 = "resolveGroup alloc st g"
  from Cons.prems(1) have gO: "groupOf s0 g" by simp
  then have n: "faction1 g \<noteq> []" "faction2 g \<noteq> []" unfolding groupOf_def by blast+
  have len: "length (units st) = length (units s0)"
    by (rule sameUnits_length[OF Cons.prems(3)])
  have b1: "\<And>i. i \<in> set (faction1 g) \<Longrightarrow> i < length (units st)"
    and b2: "\<And>i. i \<in> set (faction2 g) \<Longrightarrow> i < length (units st)"
    using groupOf_bound[OF gO] len by simp_all
  have d1: "damaged (groupDeltaWith alloc (units st) g) (units st) (units ?st1)"
    by (rule damaged_resolveGroup_any[OF n b1 b2 groupOf_disjoint[OF gO]])
  have e: "\<And>j. groupDeltaWith alloc (units st) g j = groupDeltaWith alloc (units s0) g j"
    by (rule groupDeltaWith_cong[OF Cons.prems(3) groupOf_bound[OF gO]])
       (use Cons.prems(4) in simp_all)
  have su: "sameUnits (units s0) (units ?st1)"
    by (rule sameUnits_trans[OF Cons.prems(3) sameUnits_resolveGroup])
  from Cons.prems(1) have r: "\<forall>g \<in> set gs. groupOf s0 g" by simp
  from Cons.prems(2) have dr: "distinct (map hex gs)" by simp
  have inv: "\<forall>g' \<in> set gs. \<forall>i \<in> set (faction1 g') \<union> set (faction2 g').
               units ?st1 ! i = units s0 ! i"
  proof (intro ballI)
    fix g' i assume g': "g' \<in> set gs" and i: "i \<in> set (faction1 g') \<union> set (faction2 g')"
    from r g' have gO': "groupOf s0 g'" by simp
    from Cons.prems(2) have "hex g \<notin> hex ` set gs" by simp
    with g' have ne: "hex g' \<noteq> hex g" by (metis imageI)
    have "i \<notin> set (faction1 g) \<union> set (faction2 g)"
    proof
      assume "i \<in> set (faction1 g) \<union> set (faction2 g)"
      from groupOf_hex[OF gO this] groupOf_hex[OF gO' i] ne show False by simp
    qed
    then have z: "groupDeltaWith alloc (units st) g i = 0" by (rule groupDeltaWith_outside)
    from i groupOf_bound[OF gO'] len have il: "i < length (units st)" by auto
    from damaged_unchanged[OF d1 il z] Cons.prems(4) g' i
    show "units ?st1 ! i = units s0 ! i" by simp
  qed
  have d2: "damaged (\<lambda>j. sum_list (map (\<lambda>g. groupDeltaWith alloc (units s0) g j) gs))
       (units ?st1) (units (foldl (resolveGroup alloc) ?st1 gs))"
    by (rule Cons.IH[OF r dr su inv])
  have "damaged (\<lambda>j. groupDeltaWith alloc (units s0) g j
                       + sum_list (map (\<lambda>g. groupDeltaWith alloc (units s0) g j) gs))
       (units st) (units (foldl (resolveGroup alloc) ?st1 gs))"
    by (rule damaged_cong[OF damaged_trans[OF d1 d2]]) (simp add: e)
  then show ?case by simp
qed

lemma resolveGroups_damage_any:
  assumes a: "getFactionUnitsAt s r c 1 \<noteq> []" and d: "getFactionUnitsAt s r c 2 \<noteq> []"
    and j: "j \<in> set (getFactionUnitsAt s r c 1) \<union> set (getFactionUnitsAt s r c 2)"
  shows "damage (units (resolveGroups alloc s (getEngagedGroups s)) ! j)
           = damage (units s ! j)
             + (sideDelta alloc (units s) (getFactionUnitsAt s r c 1) (getFactionUnitsAt s r c 2) 1 j
                + sideDelta alloc (units s) (getFactionUnitsAt s r c 2) (getFactionUnitsAt s r c 1) 2 j)"
proof -
  from getEngagedGroups_complete[OF a d] obtain g0 where g0: "g0 \<in> set (getEngagedGroups s)"
    "hex g0 = (r, c)" "faction1 g0 = getFactionUnitsAt s r c 1"
    "faction2 g0 = getFactionUnitsAt s r c 2" by blast
  from j have jl: "j < length (units s)" and jh: "(row (units s ! j), col (units s ! j)) = (r, c)"
    by (auto simp add: getFactionUnitsAt_mem)
  from split_list[OF g0(1)] obtain xs ys where sp: "getEngagedGroups s = xs @ g0 # ys" by blast
  have other: "groupDeltaWith alloc (units s) g j = 0" if g: "g \<in> set xs \<union> set ys" for g
  proof -
    from getEngagedGroups_distinct[of s] have "hex g0 \<notin> hex ` (set xs \<union> set ys)"
      unfolding sp by auto
    with g have ne: "hex g \<noteq> hex g0" by (metis imageI)
    from g have "g \<in> set (getEngagedGroups s)" unfolding sp by auto
    then have gO: "groupOf s g" by (rule getEngagedGroups_groupOf)
    have "j \<notin> set (faction1 g) \<union> set (faction2 g)"
    proof
      assume "j \<in> set (faction1 g) \<union> set (faction2 g)"
      from groupOf_hex[OF gO this] jh g0(2) ne show False by simp
    qed
    then show ?thesis by (rule groupDeltaWith_outside)
  qed
  have "sum_list (map (\<lambda>g. groupDeltaWith alloc (units s) g j) (getEngagedGroups s))
          = groupDeltaWith alloc (units s) g0 j"
    unfolding sp using other by (simp add: sum_list_zero)
  moreover
  have "damaged (\<lambda>j. sum_list (map (\<lambda>g. groupDeltaWith alloc (units s) g j) (getEngagedGroups s)))
          (units (logMessage s m)) (units (foldl (resolveGroup alloc) (logMessage s m) (getEngagedGroups s)))"
    for m
    by (rule damaged_foldl_resolveGroup_any)
       (simp_all add: getEngagedGroups_groupOf getEngagedGroups_distinct logMessage_def
          sameUnits_refl)
  then have "damaged (\<lambda>j. sum_list (map (\<lambda>g. groupDeltaWith alloc (units s) g j) (getEngagedGroups s)))
          (units s) (units (resolveGroups alloc s (getEngagedGroups s)))"
    by (simp add: resolveGroups_def logMessage_def)
  from damaged_damage[OF this jl]
  have "damage (units (resolveGroups alloc s (getEngagedGroups s)) ! j)
          = damage (units s ! j)
            + sum_list (map (\<lambda>g. groupDeltaWith alloc (units s) g j) (getEngagedGroups s))" .
  ultimately show ?thesis by (simp add: groupDeltaWith_def g0)
qed


subsection \<open>What the units of one side receive\<close>

lemma sideDelta_lone:
  "length ds = 1 \<Longrightarrow>
     sideDelta alloc us attackers ds f (ds ! 0) = combatTotal (map (\<lambda>i. us ! i) attackers)"
  by (simp add: sideDelta_def totalDamage_combatTotal)

lemma sideDelta_share:
  assumes "distinct ds" and "k < length ds"
  shows "sideDelta None us attackers ds f (ds ! k)
           = fallbackShare (combatTotal (map (\<lambda>i. us ! i) attackers)) (length ds) k"
  unfolding sideDelta_None totalDamage_combatTotal
  by (rule attackDelta_share[OF assms combatTotal_nonneg])

lemma sum_list_delta:
  "distinct ds \<Longrightarrow> e \<in> set ds \<Longrightarrow> sum_list (map (\<lambda>j. if j = e then c else 0) ds) = (c::int)"
proof (induction ds)
  case Nil
  then show ?case by simp
next
  case (Cons d ds)
  show ?case
  proof (cases "d = e")
    case True
    with Cons.prems have "e \<notin> set ds" by simp
    then have "sum_list (map (\<lambda>j. if j = e then c else 0) ds) = 0"
      by (intro sum_list_zero) auto
    with True show ?thesis by simp
  next
    case False
    with Cons show ?thesis by simp
  qed
qed

lemma allocated_Cons:
  "allocated us ds ((enemyId, dmg) # entries) j
     = (if find (\<lambda>i. uid (us ! i) = enemyId) ds = Some j \<and> dmg > 0 then dmg else 0)
       + allocated us ds entries j"
  by (simp add: allocated_def)

lemma allocated_sum:
  "distinct ds \<Longrightarrow>
   list_all (\<lambda>(enemyId, dmg). enemyId \<in> set (map uid (map (\<lambda>i. us ! i) ds)) \<and> 0 \<le> dmg) entries
   \<Longrightarrow> sum_list (map (allocated us ds entries) ds) = sum_list (map snd entries)"
proof (induction entries)
  case Nil
  show ?case by (simp add: allocated_def)
next
  case (Cons p entries)
  obtain enemyId dmg where p: "p = (enemyId, dmg)" by (cases p)
  from Cons.prems(2) have k: "enemyId \<in> set (map uid (map (\<lambda>i. us ! i) ds))" and nn: "0 \<le> dmg"
    and rest: "list_all (\<lambda>(enemyId, dmg). enemyId \<in> set (map uid (map (\<lambda>i. us ! i) ds)) \<and> 0 \<le> dmg)
                 entries"
    by (simp_all add: p)
  from k obtain i where "i \<in> set ds" "uid (us ! i) = enemyId" by auto
  then have "find (\<lambda>i. uid (us ! i) = enemyId) ds \<noteq> None" by (auto simp add: find_None_iff)
  then obtain e where e: "find (\<lambda>i. uid (us ! i) = enemyId) ds = Some e" by blast
  then have es: "e \<in> set ds" by (auto simp add: find_Some_iff)
  have "sum_list (map (\<lambda>j. if find (\<lambda>i. uid (us ! i) = enemyId) ds = Some j \<and> dmg > 0
                           then dmg else 0) ds)
          = sum_list (map (\<lambda>j. if j = e then (if dmg > 0 then dmg else 0) else 0) ds)"
    by (rule arg_cong[where f = sum_list], rule map_cong) (auto simp add: e)
  also have "\<dots> = (if dmg > 0 then dmg else 0)"
    by (rule sum_list_delta[OF Cons.prems(1) es])
  also have "\<dots> = dmg" using nn by simp
  finally have h: "sum_list (map (\<lambda>j. if find (\<lambda>i. uid (us ! i) = enemyId) ds = Some j \<and> dmg > 0
                           then dmg else 0) ds) = dmg" .
  have "sum_list (map (allocated us ds ((enemyId, dmg) # entries)) ds)
          = sum_list (map (\<lambda>j. if find (\<lambda>i. uid (us ! i) = enemyId) ds = Some j \<and> dmg > 0
                           then dmg else 0) ds)
            + sum_list (map (allocated us ds entries) ds)"
  proof -
    have "allocated us ds ((enemyId, dmg) # entries)
            = (\<lambda>j. (if find (\<lambda>i. uid (us ! i) = enemyId) ds = Some j \<and> dmg > 0
                        then dmg else 0)
                     + allocated us ds entries j)"
      by (simp add: fun_eq_iff allocated_Cons)
    then show ?thesis by (simp only: sum_list_addf)
  qed
  with h Cons.IH[OF Cons.prems(1) rest] show ?case by (simp add: p)
qed

lemma sideDelta_contract:
  assumes "distinct ds" and "length ds \<noteq> 1"
    and "allocationFor (map (\<lambda>i. us ! i) ds) (combatTotal (map (\<lambda>i. us ! i) attackers))
           (modal (map (\<lambda>i. us ! i) ds) (combatTotal (map (\<lambda>i. us ! i) attackers)) f)"
  shows "sum_list (map (sideDelta (Some modal) us attackers ds f) ds)
           = combatTotal (map (\<lambda>i. us ! i) attackers)"
proof -
  let ?entries = "modal (map (\<lambda>i. us ! i) ds) (combatTotal (map (\<lambda>i. us ! i) attackers)) f"
  have "sideDelta (Some modal) us attackers ds f = allocated us ds ?entries"
    using assms(2) by (simp add: fun_eq_iff sideDelta_def totalDamage_combatTotal)
  moreover from assms(3) have "sum_list (map (allocated us ds ?entries) ds)
                                 = sum_list (map snd ?entries)"
    unfolding allocationFor_def by (intro allocated_sum[OF assms(1)]) simp
  moreover from assms(3) have "sum_list (map snd ?entries)
                                 = combatTotal (map (\<lambda>i. us ! i) attackers)"
    by (simp add: allocationFor_def)
  ultimately show ?thesis by simp
qed

lemma side_received:
  assumes rec: "\<And>j. j \<in> set ds \<Longrightarrow> after j = before j + sideDelta alloc us attackers ds f j"
    and dis: "distinct ds" and ne: "ds \<noteq> []"
  shows "(length ds = 1 \<longrightarrow>
            after (ds ! 0) = before (ds ! 0) + combatTotal (map (\<lambda>i. us ! i) attackers))
       \<and> (length ds \<noteq> 1 \<and> alloc = None \<longrightarrow>
            (\<forall>k<length ds. after (ds ! k) = before (ds ! k)
               + fallbackShare (combatTotal (map (\<lambda>i. us ! i) attackers)) (length ds) k))
       \<and> (\<forall>modal. length ds \<noteq> 1 \<and> alloc = Some modal
            \<and> allocationFor (map (\<lambda>i. us ! i) ds) (combatTotal (map (\<lambda>i. us ! i) attackers))
                (modal (map (\<lambda>i. us ! i) ds) (combatTotal (map (\<lambda>i. us ! i) attackers)) f)
            \<longrightarrow> sum_list (map (\<lambda>i. after i - before i) ds)
                  = combatTotal (map (\<lambda>i. us ! i) attackers))"
proof (intro conjI impI allI)
  assume l: "length ds = 1"
  with ne have "ds ! 0 \<in> set ds" by simp
  from rec[OF this] sideDelta_lone[OF l]
  show "after (ds ! 0) = before (ds ! 0) + combatTotal (map (\<lambda>i. us ! i) attackers)" by simp
next
  fix k assume h: "length ds \<noteq> 1 \<and> alloc = None" and k: "k < length ds"
  then have "ds ! k \<in> set ds" by simp
  from rec[OF this] h sideDelta_share[OF dis k]
  show "after (ds ! k) = before (ds ! k)
               + fallbackShare (combatTotal (map (\<lambda>i. us ! i) attackers)) (length ds) k"
    by simp
next
  fix modal
  assume h: "length ds \<noteq> 1 \<and> alloc = Some modal
            \<and> allocationFor (map (\<lambda>i. us ! i) ds) (combatTotal (map (\<lambda>i. us ! i) attackers))
                (modal (map (\<lambda>i. us ! i) ds) (combatTotal (map (\<lambda>i. us ! i) attackers)) f)"
  then have al: "alloc = Some modal" by simp
  have m: "map (\<lambda>i. after i - before i) ds = map (sideDelta (Some modal) us attackers ds f) ds"
    by (rule map_cong) (simp_all add: rec al)
  have "sum_list (map (\<lambda>i. after i - before i) ds)
          = sum_list (map (sideDelta (Some modal) us attackers ds f) ds)"
    by (simp only: m)
  also have "\<dots> = combatTotal (map (\<lambda>i. us ! i) attackers)"
    by (rule sideDelta_contract[OF dis]) (use h in simp_all)
  finally show "sum_list (map (\<lambda>i. after i - before i) ds)
                  = combatTotal (map (\<lambda>i. us ! i) attackers)" .
qed

lemma received_by_faction2:
  assumes a: "getFactionUnitsAt s r c 1 \<noteq> []" and d: "getFactionUnitsAt s r c 2 \<noteq> []"
    and j: "j \<in> set (getFactionUnitsAt s r c 2)"
  shows "damage (units (resolveGroups alloc s (getEngagedGroups s)) ! j)
           = damage (units s ! j)
             + sideDelta alloc (units s) (getFactionUnitsAt s r c 1) (getFactionUnitsAt s r c 2) 1 j"
proof -
  from j factions_disjoint[of s r c] have "j \<notin> set (getFactionUnitsAt s r c 1)" by blast
  then have "sideDelta alloc (units s) (getFactionUnitsAt s r c 2) (getFactionUnitsAt s r c 1) 2 j = 0"
    by (rule sideDelta_outside)
  with resolveGroups_damage_any[OF a d, of j alloc] j show ?thesis by simp
qed

lemma received_by_faction1:
  assumes a: "getFactionUnitsAt s r c 1 \<noteq> []" and d: "getFactionUnitsAt s r c 2 \<noteq> []"
    and j: "j \<in> set (getFactionUnitsAt s r c 1)"
  shows "damage (units (resolveGroups alloc s (getEngagedGroups s)) ! j)
           = damage (units s ! j)
             + sideDelta alloc (units s) (getFactionUnitsAt s r c 2) (getFactionUnitsAt s r c 1) 2 j"
proof -
  from j factions_disjoint[of s r c] have "j \<notin> set (getFactionUnitsAt s r c 2)" by blast
  then have "sideDelta alloc (units s) (getFactionUnitsAt s r c 1) (getFactionUnitsAt s r c 2) 1 j = 0"
    by (rule sideDelta_outside)
  with resolveGroups_damage_any[OF a d, of j alloc] j show ?thesis by simp
qed


text \<open>
  Claim C1. Take any hex \<open>(r, c)\<close> where living units of both factions stand, with
  \<open>A\<close> the living units of faction 1 and \<open>D\<close> those of faction 2 there, and resolve all
  groups, with or without an allocation collaborator. The total outgoing damage of a
  side is the sum over its units of 3 for a Militia unit and 2 for any other. If the
  other side has one unit, that unit receives the whole total, whatever the allocator.
  If it has several and no allocator is supplied, its \<open>k\<close>-th unit, in enumeration
  order, receives \<open>floor(total / count)\<close>, plus 1 if \<open>k < total mod count\<close>. If it has
  several and an allocator is supplied that keeps its contract when asked for that
  total, the damage its units receive adds up to the total. This holds in both
  directions; the destroyed units are removed afterwards.
\<close>

theorem combat_even_split:
  fixes s :: GameState and r c :: int and alloc :: "allocator option"
  defines "A \<equiv> getFactionUnitsAt s r c 1"
    and "D \<equiv> getFactionUnitsAt s r c 2"
    and "s' \<equiv> resolveGroups alloc s (getEngagedGroups s)"
  defines "TA \<equiv> combatTotal (map (\<lambda>i. units s ! i) A)"
    and "TD \<equiv> combatTotal (map (\<lambda>i. units s ! i) D)"
  assumes "A \<noteq> []" and "D \<noteq> []"
  shows "(length D = 1 \<longrightarrow> damage (units s' ! (D ! 0)) = damage (units s ! (D ! 0)) + TA)
       \<and> (length D \<noteq> 1 \<and> alloc = None \<longrightarrow>
            (\<forall>k<length D. damage (units s' ! (D ! k)) = damage (units s ! (D ! k))
               + fallbackShare TA (length D) k))
       \<and> (\<forall>modal. length D \<noteq> 1 \<and> alloc = Some modal
            \<and> allocationFor (map (\<lambda>i. units s ! i) D) TA (modal (map (\<lambda>i. units s ! i) D) TA 1)
            \<longrightarrow> sum_list (map (\<lambda>i. damage (units s' ! i) - damage (units s ! i)) D) = TA)
       \<and> (length A = 1 \<longrightarrow> damage (units s' ! (A ! 0)) = damage (units s ! (A ! 0)) + TD)
       \<and> (length A \<noteq> 1 \<and> alloc = None \<longrightarrow>
            (\<forall>k<length A. damage (units s' ! (A ! k)) = damage (units s ! (A ! k))
               + fallbackShare TD (length A) k))
       \<and> (\<forall>modal. length A \<noteq> 1 \<and> alloc = Some modal
            \<and> allocationFor (map (\<lambda>i. units s ! i) A) TD (modal (map (\<lambda>i. units s ! i) A) TD 2)
            \<longrightarrow> sum_list (map (\<lambda>i. damage (units s' ! i) - damage (units s ! i)) A) = TD)
       \<and> units (resolveCombatAsync s alloc) = filter isAlive (units s')"
proof -
  have a: "getFactionUnitsAt s r c 1 \<noteq> []" and d: "getFactionUnitsAt s r c 2 \<noteq> []"
    using assms by simp_all
  have dA: "distinct A" and dD: "distinct D"
    by (simp_all add: A_def D_def getFactionUnitsAt_distinct)
  have recD: "\<And>j. j \<in> set D \<Longrightarrow> damage (units s' ! j)
                 = damage (units s ! j) + sideDelta alloc (units s) A D 1 j"
    unfolding A_def D_def s'_def by (rule received_by_faction2[OF a d])
  have recA: "\<And>j. j \<in> set A \<Longrightarrow> damage (units s' ! j)
                 = damage (units s ! j) + sideDelta alloc (units s) D A 2 j"
    unfolding A_def D_def s'_def by (rule received_by_faction1[OF a d])
  note rD = side_received[of D "\<lambda>j. damage (units s' ! j)" "\<lambda>j. damage (units s ! j)"
              alloc "units s" A 1, OF recD dD assms(7), folded TA_def]
  note rA = side_received[of A "\<lambda>j. damage (units s' ! j)" "\<lambda>j. damage (units s ! j)"
              alloc "units s" D 2, OF recA dA assms(6), folded TD_def]
  from getEngagedGroups_complete[OF a d] have "getEngagedGroups s \<noteq> []" by auto
  then have u: "units (resolveCombatAsync s alloc) = filter isAlive (units s')"
    unfolding s'_def by (rule resolveCombatAsync_units)
  from rD rA u show ?thesis by blast
qed

theorem combat_even_split_witness:
  "getFactionUnitsAt militiaState 2 2 1 = [0]
   \<and> getFactionUnitsAt militiaState 2 2 2 = [1, 2]
   \<and> damage (units (resolveGroups None militiaState (getEngagedGroups militiaState)) ! 1) = 2
   \<and> damage (units (resolveGroups None militiaState (getEngagedGroups militiaState)) ! 2) = 1
   \<and> damage (units (resolveGroups None militiaState (getEngagedGroups militiaState)) ! 0) = 4
   \<and> allocationFor (map (\<lambda>i. units militiaState ! i) [1, 2]) 3
        (allToFirst (map (\<lambda>i. units militiaState ! i) [1, 2]) 3 1)
   \<and> damage (units (resolveGroups (Some allToFirst) militiaState
                      (getEngagedGroups militiaState)) ! 0) = 4
   \<and> sum_list (map (\<lambda>i. damage (units (resolveGroups (Some allToFirst) militiaState
                                          (getEngagedGroups militiaState)) ! i)
                          - damage (units militiaState ! i)) [1, 2]) = 3"
proof -
  have a: "getFactionUnitsAt militiaState 2 2 1 = [0]"
    and d: "getFactionUnitsAt militiaState 2 2 2 = [1, 2]" by code_simp+
  have t: "combatTotal (map (\<lambda>i. units militiaState ! i) [0]) = 3"
    "combatTotal (map (\<lambda>i. units militiaState ! i) [1, 2]) = 4" by code_simp+
  have z: "damage (units militiaState ! 0) = 0" "damage (units militiaState ! 1) = 0"
    "damage (units militiaState ! 2) = 0" by code_simp+
  have cf: "allocationFor (map (\<lambda>i. units militiaState ! i) [1, 2]) 3
        (allToFirst (map (\<lambda>i. units militiaState ! i) [1, 2]) 3 1)" by code_simp
  have ne: "[0::nat] \<noteq> []" "[1::nat, 2] \<noteq> []" by simp_all
  note n = combat_even_split[where s = militiaState and r = 2 and c = 2 and alloc = None,
             unfolded a d t, OF ne]
  note n2 = n[THEN conjunct2, THEN conjunct1, rule_format]
  note n4 = n[THEN conjunct2, THEN conjunct2, THEN conjunct2, THEN conjunct1, rule_format]
  note m = combat_even_split[where s = militiaState and r = 2 and c = 2
             and alloc = "Some allToFirst", unfolded a d t, OF ne]
  note m3 = m[THEN conjunct2, THEN conjunct2, THEN conjunct1, rule_format]
  note m4 = m[THEN conjunct2, THEN conjunct2, THEN conjunct2, THEN conjunct1, rule_format]
  from z n2[of 0]
  have r1: "damage (units (resolveGroups None militiaState (getEngagedGroups militiaState)) ! 1) = 2"
    by (simp add: fallbackShare_def)
  from z n2[of 1]
  have r2: "damage (units (resolveGroups None militiaState (getEngagedGroups militiaState)) ! 2) = 1"
    by (simp add: fallbackShare_def)
  from z n4
  have r0: "damage (units (resolveGroups None militiaState (getEngagedGroups militiaState)) ! 0) = 4"
    by simp
  from z m4
  have q0: "damage (units (resolveGroups (Some allToFirst) militiaState
                      (getEngagedGroups militiaState)) ! 0) = 4"
    by simp
  have "length [1::nat, 2] \<noteq> 1 \<and> Some allToFirst = Some allToFirst
          \<and> allocationFor (map (\<lambda>i. units militiaState ! i) [1, 2]) 3
              (allToFirst (map (\<lambda>i. units militiaState ! i) [1, 2]) 3 1)"
    using cf by simp
  from m3[OF this]
  have q1: "sum_list (map (\<lambda>i. damage (units (resolveGroups (Some allToFirst) militiaState
                                          (getEngagedGroups militiaState)) ! i)
                          - damage (units militiaState ! i)) [1, 2]) = 3" .
  from a d r1 r2 r0 cf q0 q1 show ?thesis by blast
qed


text \<open>
  Claim C9. Let \<open>g\<close> be a group of the state and resolve all groups, with or without
  an allocator. The total that faction 2 deals in \<open>g\<close> is computed in the state in
  which faction 1 has already dealt its damage, and it is the sum over every unit of
  faction 2 in the group, whether or not that damage has destroyed it; the group's
  combat then ends with faction 2's attack. That total is applied in full: a lone unit
  of faction 1 receives all of it, whatever the allocator; several units receive their
  even shares of it when no allocator is supplied; and when an allocator is supplied
  that keeps its contract when asked for that total, the damage they receive adds up to
  it. The loop over the groups removes no unit, and the destroyed units are removed
  from the result of the whole loop.
\<close>

theorem combat_counts_destroyed_attackers:
  fixes s :: GameState and alloc :: "allocator option" and g :: Group and gs :: "Group list"
  defines "s' \<equiv> resolveGroups alloc s (getEngagedGroups s)"
    and "TD \<equiv> combatTotal (map (\<lambda>i. units s ! i) (faction2 g))"
  assumes "g \<in> set (getEngagedGroups s)"
  shows "totalDamage (map (\<lambda>i. units (afterFaction1 alloc s g) ! i) (faction2 g)) = TD
       \<and> resolveGroup alloc s g
           = attackSide alloc (afterFaction1 alloc s g) (faction2 g) (faction1 g) 2
       \<and> (length (faction1 g) = 1 \<longrightarrow>
            damage (units s' ! (faction1 g ! 0)) = damage (units s ! (faction1 g ! 0)) + TD)
       \<and> (length (faction1 g) \<noteq> 1 \<and> alloc = None \<longrightarrow>
            (\<forall>k<length (faction1 g).
               damage (units s' ! (faction1 g ! k)) = damage (units s ! (faction1 g ! k))
                 + fallbackShare TD (length (faction1 g)) k))
       \<and> (\<forall>modal. length (faction1 g) \<noteq> 1 \<and> alloc = Some modal
            \<and> allocationFor (map (\<lambda>i. units s ! i) (faction1 g)) TD
                (modal (map (\<lambda>i. units s ! i) (faction1 g)) TD 2)
            \<longrightarrow> sum_list (map (\<lambda>i. damage (units s' ! i) - damage (units s ! i)) (faction1 g))
                  = TD)
       \<and> (\<forall>k<length (faction1 g).
             damage (units (resolveGroup None s g) ! (faction1 g ! k))
               = damage (units s ! (faction1 g ! k))
                 + (if length (faction1 g) = 1 then TD
                    else fallbackShare TD (length (faction1 g)) k))
       \<and> map uid (units (resolveGroups alloc s gs)) = map uid (units s)
       \<and> units (resolveCombatAsync s alloc) = filter isAlive (units s')"
proof -
  from assms(3) have gO: "groupOf s g" by (rule getEngagedGroups_groupOf)
  then have n: "faction1 g \<noteq> []" "faction2 g \<noteq> []" unfolding groupOf_def by blast+
  from gO have f: "faction1 g = getFactionUnitsAt s (fst (hex g)) (snd (hex g)) 1"
    "faction2 g = getFactionUnitsAt s (fst (hex g)) (snd (hex g)) 2"
    unfolding groupOf_def by blast+
  have a: "getFactionUnitsAt s (fst (hex g)) (snd (hex g)) 1 \<noteq> []"
    and d: "getFactionUnitsAt s (fst (hex g)) (snd (hex g)) 2 \<noteq> []"
    using n f by simp_all
  have dA: "distinct (faction1 g)" by (simp only: f getFactionUnitsAt_distinct)
  have dis: "set (faction1 g) \<inter> set (faction2 g) = {}"
    by (rule groupOf_disjoint[OF gO])
  have "totalDamage (map (\<lambda>i. units (afterFaction1 alloc s g) ! i) (faction2 g))
          = totalDamage (map (\<lambda>i. units s ! i) (faction2 g))"
    by (rule totalDamage_sameUnits[OF sameUnits_afterFaction1 groupOf_bound(2)[OF gO]])
  then have c1: "totalDamage (map (\<lambda>i. units (afterFaction1 alloc s g) ! i) (faction2 g)) = TD"
    by (simp only: totalDamage_combatTotal TD_def)
  have c2: "resolveGroup alloc s g
           = attackSide alloc (afterFaction1 alloc s g) (faction2 g) (faction1 g) 2"
    by (rule resolveGroup_halves[OF n])
  have recA: "\<And>j. j \<in> set (faction1 g) \<Longrightarrow> damage (units s' ! j)
                 = damage (units s ! j)
                   + sideDelta alloc (units s) (faction2 g) (faction1 g) 2 j"
    unfolding s'_def using received_by_faction1[OF a d, of _ alloc] by (simp only: f[symmetric])
  note c345 = side_received[of "faction1 g" "\<lambda>j. damage (units s' ! j)"
              "\<lambda>j. damage (units s ! j)" alloc "units s" "faction2 g" 2,
              OF recA dA n(1), folded TD_def]
  have c6: "\<forall>k<length (faction1 g).
             damage (units (resolveGroup None s g) ! (faction1 g ! k))
               = damage (units s ! (faction1 g ! k))
                 + (if length (faction1 g) = 1 then TD
                    else fallbackShare TD (length (faction1 g)) k)"
  proof (intro allI impI)
    fix k assume k: "k < length (faction1 g)"
    then have b: "faction1 g ! k < length (units s)"
      using groupOf_bound(1)[OF gO] by simp
    have "damaged (groupDelta (units s) g) (units s) (units (resolveGroup None s g))"
      by (rule damaged_resolveGroup[OF n groupOf_bound(2)[OF gO]])
    from damaged_damage[OF this b]
    have "damage (units (resolveGroup None s g) ! (faction1 g ! k))
            = damage (units s ! (faction1 g ! k))
              + (attackDelta (totalDamage (map (\<lambda>i. units s ! i) (faction2 g))) (faction1 g)
                   (faction1 g ! k)
                 + attackDelta (totalDamage (map (\<lambda>i. units s ! i) (faction1 g))) (faction2 g)
                     (faction1 g ! k))"
      by (simp add: groupDelta_def)
    then show "damage (units (resolveGroup None s g) ! (faction1 g ! k))
               = damage (units s ! (faction1 g ! k))
                 + (if length (faction1 g) = 1 then TD
                    else fallbackShare TD (length (faction1 g)) k)"
      by (simp only: share_cases[OF dA k dis] TD_def)
  qed
  have c7: "map uid (units (resolveGroups alloc s gs)) = map uid (units s)"
    by (rule sameUnits_uid[OF sameUnits_resolveGroups])
  from assms(3) have "getEngagedGroups s \<noteq> []" by auto
  then have c8: "units (resolveCombatAsync s alloc) = filter isAlive (units s')"
    unfolding s'_def by (rule resolveCombatAsync_units)
  from c1 c2 c345 c6 c7 c8 show ?thesis by blast
qed

theorem combat_counts_destroyed_attackers_witness:
  "pairGroup \<in> set (getEngagedGroups pairState)
   \<and> \<not> isAlive (units (afterFaction1 (Some allToFirst) pairState pairGroup) ! 2)
   \<and> allocationFor (map (\<lambda>i. units pairState ! i) [0, 1]) 2
        (allToFirst (map (\<lambda>i. units pairState ! i) [0, 1]) 2 2)
   \<and> sum_list (map (\<lambda>i. damage (units (resolveGroups (Some allToFirst) pairState
                                          (getEngagedGroups pairState)) ! i)
                          - damage (units pairState ! i)) [0, 1]) = 2
   \<and> map uid (units (resolveGroups (Some allToFirst) pairState (getEngagedGroups pairState)))
       = [''m1'', ''s1'', ''a1'']
   \<and> map uid (units (resolveCombatAsync pairState (Some allToFirst))) = [''m1'', ''s1'']
   \<and> damage (units (resolveGroups None pairState (getEngagedGroups pairState)) ! 0) = 1
   \<and> damage (units (resolveGroups None pairState (getEngagedGroups pairState)) ! 1) = 1
   \<and> killGroup \<in> set (getEngagedGroups killState)
   \<and> \<not> isAlive (units (afterFaction1 (Some allToFirst) killState killGroup) ! 1)
   \<and> damage (units (resolveGroups (Some allToFirst) killState (getEngagedGroups killState)) ! 0)
       = 2"
proof -
  have g: "pairGroup \<in> set (getEngagedGroups pairState)" by code_simp
  have k: "\<not> isAlive (units (afterFaction1 (Some allToFirst) pairState pairGroup) ! 2)"
    by code_simp
  have f: "faction1 pairGroup = [0, 1]" "faction2 pairGroup = [2]" by code_simp+
  have t: "combatTotal (map (\<lambda>i. units pairState ! i) [2]) = 2" by code_simp
  have z: "damage (units pairState ! 0) = 0" "damage (units pairState ! 1) = 0" by code_simp+
  have u: "map uid (units pairState) = [''m1'', ''s1'', ''a1'']" by code_simp
  have l: "map uid (filter isAlive
             (units (resolveGroups (Some allToFirst) pairState (getEngagedGroups pairState))))
             = [''m1'', ''s1'']"
    by code_simp
  have cf: "allocationFor (map (\<lambda>i. units pairState ! i) [0, 1]) 2
        (allToFirst (map (\<lambda>i. units pairState ! i) [0, 1]) 2 2)" by code_simp
  note m = combat_counts_destroyed_attackers
             [where s = pairState and g = pairGroup and alloc = "Some allToFirst"
                and gs = "getEngagedGroups pairState", OF g, unfolded f t]
  note m5 = m[THEN conjunct2, THEN conjunct2, THEN conjunct2, THEN conjunct2, THEN conjunct1,
              rule_format]
  note m7 = m[THEN conjunct2, THEN conjunct2, THEN conjunct2, THEN conjunct2, THEN conjunct2,
              THEN conjunct2, THEN conjunct1]
  note m8 = m[THEN conjunct2, THEN conjunct2, THEN conjunct2, THEN conjunct2, THEN conjunct2,
              THEN conjunct2, THEN conjunct2]
  have "length [0::nat, 1] \<noteq> 1 \<and> Some allToFirst = Some allToFirst
          \<and> allocationFor (map (\<lambda>i. units pairState ! i) [0, 1]) 2
              (allToFirst (map (\<lambda>i. units pairState ! i) [0, 1]) 2 2)"
    using cf by simp
  from m5[OF this]
  have q1: "sum_list (map (\<lambda>i. damage (units (resolveGroups (Some allToFirst) pairState
                                          (getEngagedGroups pairState)) ! i)
                          - damage (units pairState ! i)) [0, 1]) = 2" .
  from m7 u have q2: "map uid (units (resolveGroups (Some allToFirst) pairState
                                        (getEngagedGroups pairState)))
       = [''m1'', ''s1'', ''a1'']" by simp
  from m8 l have q3: "map uid (units (resolveCombatAsync pairState (Some allToFirst)))
       = [''m1'', ''s1'']" by simp
  note n = combat_counts_destroyed_attackers
             [where s = pairState and g = pairGroup and alloc = None
                and gs = "getEngagedGroups pairState", OF g, unfolded f t]
  note n4 = n[THEN conjunct2, THEN conjunct2, THEN conjunct2, THEN conjunct1, rule_format]
  from z n4[of 0]
  have r0: "damage (units (resolveGroups None pairState (getEngagedGroups pairState)) ! 0) = 1"
    by (simp add: fallbackShare_def)
  from z n4[of 1]
  have r1: "damage (units (resolveGroups None pairState (getEngagedGroups pairState)) ! 1) = 1"
    by (simp add: fallbackShare_def)
  have g': "killGroup \<in> set (getEngagedGroups killState)" by code_simp
  have k': "\<not> isAlive (units (afterFaction1 (Some allToFirst) killState killGroup) ! 1)"
    by code_simp
  have f': "faction1 killGroup = [0]" "faction2 killGroup = [1]" by code_simp+
  have t': "combatTotal (map (\<lambda>i. units killState ! i) [1]) = 2" by code_simp
  have z': "damage (units killState ! 0) = 0" by code_simp
  note o = combat_counts_destroyed_attackers
             [where s = killState and g = killGroup and alloc = "Some allToFirst"
                and gs = "getEngagedGroups killState", OF g', unfolded f' t']
  note o3 = o[THEN conjunct2, THEN conjunct2, THEN conjunct1, rule_format]
  from z' o3
  have r: "damage (units (resolveGroups (Some allToFirst) killState
                            (getEngagedGroups killState)) ! 0) = 2"
    by simp
  from g k cf q1 q2 q3 r0 r1 g' k' r show ?thesis by blast
qed

end
